theory Spec2Isabelle
  imports Complex_Main "HOL-Library.Sublist"
begin

section \<open>Human agent fallback: data model\<close>

text \<open>
  A shallow embedding of \<^verbatim>\<open>human_agent_fallback.py\<close>. The three enumerations are
  datatypes, the two dataclasses are records, and the singleton \<^verbatim>\<open>HumanAgentFallback\<close>
  object is a record holding the agent list, the query list and the thresholds. Objects
  are referred to by their position in the list that owns them, which plays the role of
  the Python object reference. Python integers are \<open>int\<close>. The scores of the matcher are
  sums of small integers and of halves of integers, which double precision represents
  exactly (for loads below \<open>2 ^ 53\<close>), so they are modelled by exact reals; the wait
  time estimate, whose digits depend on rounding, is modelled in binary64.
\<close>

datatype QueryComplexity = SIMPLE | MODERATE | COMPLEX | CRITICAL

datatype AgentStatus = AVAILABLE | BUSY | OFFLINE | BREAK

datatype EscalationReason =
    TECHNICAL_ISSUE
  | COMPLEX_QUERY
  | CUSTOMER_COMPLAINT
  | PRICE_NEGOTIATION
  | CUSTOM_REQUIREMENTS
  | LANGUAGE_BARRIER
  | EMERGENCY

text \<open>The \<^verbatim>\<open>.value\<close> of an \<^verbatim>\<open>EscalationReason\<close> member.\<close>

fun reason_value :: "EscalationReason \<Rightarrow> string" where
  "reason_value TECHNICAL_ISSUE = ''technical_issue''"
| "reason_value COMPLEX_QUERY = ''complex_query''"
| "reason_value CUSTOMER_COMPLAINT = ''customer_complaint''"
| "reason_value PRICE_NEGOTIATION = ''price_negotiation''"
| "reason_value CUSTOM_REQUIREMENTS = ''custom_requirements''"
| "reason_value LANGUAGE_BARRIER = ''language_barrier''"
| "reason_value EMERGENCY = ''emergency''"

text \<open>
  \<^verbatim>\<open>HumanAgent\<close>. The fields \<^verbatim>\<open>id\<close> and \<^verbatim>\<open>status\<close> are called \<open>a_id\<close> and
  \<open>a_status\<close> here, since \<^verbatim>\<open>EscalatedQuery\<close> has fields of the same names.
\<close>

record HumanAgent =
  a_id :: string
  name :: string
  email :: string
  phone :: string
  expertise :: "string list"
  languages :: "string list"
  a_status :: AgentStatus
  current_chats :: int
  max_chats :: int
  last_activity :: string

text \<open>
  \<^verbatim>\<open>EscalatedQuery\<close>. The dataclass declares no \<^verbatim>\<open>language\<close> field, but the code
  probes for one with \<^verbatim>\<open>hasattr\<close>; the field \<open>language\<close> below is that dynamic
  attribute, \<open>None\<close> when the object has no such attribute; \<^verbatim>\<open>notes\<close> is \<open>q_notes\<close>.
\<close>

record EscalatedQuery =
  q_id :: string
  customer_id :: string
  query :: string
  complexity :: QueryComplexity
  reason :: EscalationReason
  agent_id :: string
  q_status :: string
  created_time :: string
  assigned_time :: string
  resolved_time :: string
  priority :: int
  q_notes :: string
  language :: "string option"

record Thresholds =
  max_retries :: int
  confidence_threshold :: real
  response_time_threshold :: real

record HumanAgentFallback =
  agents :: "HumanAgent list"
  escalated_queries :: "EscalatedQuery list"
  complexity_thresholds :: Thresholds

section \<open>Clock readings and their renderings\<close>

text \<open>
  One reading of \<^verbatim>\<open>datetime.now()\<close>. Every public operation takes the reading of
  the clock as an argument; the timestamps it writes are renderings of that reading.
\<close>

record datetime =
  year :: nat
  month :: nat
  day :: nat
  hour :: nat
  minute :: nat
  second :: nat
  microsecond :: nat

definition digit :: "nat \<Rightarrow> char" where
  "digit n = ''0123456789'' ! (n mod 10)"

fun str_nat :: "nat \<Rightarrow> string" where
  "str_nat n = (if n < 10 then [digit n] else str_nat (n div 10) @ [digit (n mod 10)])"

declare str_nat.simps [simp del]

definition zfill :: "nat \<Rightarrow> string \<Rightarrow> string" where
  "zfill w s = replicate (w - length s) (CHR ''0'') @ s"

text \<open>
  \<^verbatim>\<open>strftime('%Y%m%d%H%M%S')\<close>: the reading down to the second, fourteen digits for
  a year of four digits. \<^verbatim>\<open>isoformat()\<close> leaves the microseconds out when they are 0.
\<close>

definition strftime_YmdHMS :: "datetime \<Rightarrow> string" where
  "strftime_YmdHMS t =
     zfill 4 (str_nat (year t)) @ zfill 2 (str_nat (month t)) @ zfill 2 (str_nat (day t)) @
     zfill 2 (str_nat (hour t)) @ zfill 2 (str_nat (minute t)) @ zfill 2 (str_nat (second t))"

definition isoformat :: "datetime \<Rightarrow> string" where
  "isoformat t =
     zfill 4 (str_nat (year t)) @ ''-'' @ zfill 2 (str_nat (month t)) @ ''-'' @
     zfill 2 (str_nat (day t)) @ ''T'' @ zfill 2 (str_nat (hour t)) @ '':'' @
     zfill 2 (str_nat (minute t)) @ '':'' @ zfill 2 (str_nat (second t)) @
     (if microsecond t = 0 then [] else ''.'' @ zfill 6 (str_nat (microsecond t)))"

section \<open>String helpers\<close>

text \<open>
  \<^verbatim>\<open>str.lower\<close> on the ASCII letters (the keyword lists and the inputs considered are
  ASCII), \<^verbatim>\<open>keyword in text\<close> as a substring test, and \<^verbatim>\<open>str.split(sep)\<close>.
\<close>

definition lower_char :: "char \<Rightarrow> char" where
  "lower_char c =
     (case map_of (zip ''ABCDEFGHIJKLMNOPQRSTUVWXYZ'' ''abcdefghijklmnopqrstuvwxyz'') c of
        Some d \<Rightarrow> d
      | None \<Rightarrow> c)"

definition lower :: "string \<Rightarrow> string" where
  "lower s = map lower_char s"

fun contains :: "string \<Rightarrow> string \<Rightarrow> bool" where
  "contains k [] = (k = [])"
| "contains k (c # cs) = (prefix k (c # cs) \<or> contains k cs)"

fun split_on :: "char \<Rightarrow> string \<Rightarrow> string list" where
  "split_on sep [] = [[]]"
| "split_on sep (c # cs) =
     (if c = sep then [] # split_on sep cs
      else (case split_on sep cs of
              [] \<Rightarrow> [[c]]
            | w # ws \<Rightarrow> (c # w) # ws))"

section \<open>Escalation classifier\<close>

definition escalation_keywords :: "string list" where
  "escalation_keywords =
     [''speak to human'', ''talk to agent'', ''customer service'', ''complaint'',
      ''not satisfied'', ''wrong information'', ''confused'', ''help me'',
      ''emergency'', ''urgent'', ''problem'', ''issue'', ''broken'', ''not working'']"

definition financial_keywords :: "string list" where
  "financial_keywords =
     [''negotiate'', ''discount'', ''bargain'', ''lower price'', ''best price'',
      ''offer'', ''deal'', ''finance'', ''loan'', ''emi'', ''installment'']"

definition custom_keywords :: "string list" where
  "custom_keywords =
     [''custom'', ''modify'', ''special'', ''specific'', ''particular'',
      ''requirement'', ''need'', ''want'', ''looking for'', ''prefer'']"

definition technical_keywords :: "string list" where
  "technical_keywords =
     [''not working'', ''broken'', ''error'', ''problem'', ''issue'',
      ''malfunction'', ''defect'', ''damage'', ''repair'', ''fix'']"

definition emergency_keywords :: "string list" where
  "emergency_keywords =
     [''emergency'', ''urgent'', ''immediately'', ''asap'', ''help'',
      ''accident'', ''stuck'', ''stranded'', ''danger'', ''safety'']"

definition any_keyword :: "string list \<Rightarrow> string \<Rightarrow> bool" where
  "any_keyword keywords text = list_ex (\<lambda>keyword. contains keyword (lower text)) keywords"

text \<open>
  The thresholds of the constructor. The confidence threshold is the double that the
  literal \<^verbatim>\<open>0.7\<close> denotes.
\<close>

definition default_thresholds :: Thresholds where
  "default_thresholds =
     \<lparr>max_retries = 3,
      confidence_threshold = 3152519739159347 / 4503599627370496,
      response_time_threshold = 30\<rparr>"

definition should_escalate_to_human ::
  "Thresholds \<Rightarrow> string \<Rightarrow> string \<Rightarrow> real \<Rightarrow> real \<Rightarrow> bool \<times> EscalationReason option" where
  "should_escalate_to_human th qtext ai_response confidence response_time =
     (if any_keyword escalation_keywords qtext then (True, Some CUSTOMER_COMPLAINT)
      else if any_keyword financial_keywords qtext then (True, Some PRICE_NEGOTIATION)
      else if any_keyword custom_keywords qtext then (True, Some CUSTOM_REQUIREMENTS)
      else if any_keyword technical_keywords qtext then (True, Some TECHNICAL_ISSUE)
      else if confidence < confidence_threshold th then (True, Some COMPLEX_QUERY)
      else if response_time > response_time_threshold th then (True, Some COMPLEX_QUERY)
      else if any_keyword emergency_keywords qtext then (True, Some EMERGENCY)
      else (False, None))"

section \<open>Matcher\<close>

text \<open>
  \<^verbatim>\<open>find_best_agent\<close>. The candidates are the positions of the agents that are
  available and below their limit, in registry order. The loop keeps the best position
  and the best score so far, starting from no agent and \<open>-1\<close>, and replaces them only
  on a strictly greater score.
\<close>

definition is_available :: "HumanAgent \<Rightarrow> bool" where
  "is_available agent \<longleftrightarrow> a_status agent = AVAILABLE \<and> current_chats agent < max_chats agent"

definition available_agents :: "HumanAgent list \<Rightarrow> nat list" where
  "available_agents ags = filter (\<lambda>i. is_available (ags ! i)) [0..<length ags]"

text \<open>\<^verbatim>\<open>hasattr(query, 'language') and query.language in agent.languages\<close>\<close>

definition language_match :: "EscalatedQuery \<Rightarrow> HumanAgent \<Rightarrow> bool" where
  "language_match q agent =
     (case language q of None \<Rightarrow> False | Some l \<Rightarrow> l \<in> set (languages agent))"

definition agent_score :: "EscalatedQuery \<Rightarrow> HumanAgent \<Rightarrow> real" where
  "agent_score q agent =
     (let s0 = fold (\<lambda>e s. if e \<in> set (expertise agent) then s + 2 else s)
                 (split_on (CHR ''_'') (reason_value (reason q))) 0;
          s1 = (if language_match q agent then s0 + 1 else s0);
          s2 = (if priority q \<ge> 4 then s1 + 1 else s1)
      in s2 + real_of_int (max_chats agent - current_chats agent) * (1 / 2))"

fun best_loop ::
  "HumanAgent list \<Rightarrow> EscalatedQuery \<Rightarrow> nat list \<Rightarrow> nat option \<times> real \<Rightarrow> nat option \<times> real" where
  "best_loop ags q [] (best_agent, best_score) = (best_agent, best_score)"
| "best_loop ags q (i # rest) (best_agent, best_score) =
     (let score = agent_score q (ags ! i)
      in if score > best_score then best_loop ags q rest (Some i, score)
         else best_loop ags q rest (best_agent, best_score))"

definition find_best_agent :: "HumanAgent list \<Rightarrow> EscalatedQuery \<Rightarrow> nat option" where
  "find_best_agent ags q =
     (let candidates = available_agents ags
      in if candidates = [] then None
         else fst (best_loop ags q candidates (None, - 1)))"

section \<open>Assignment\<close>

text \<open>
  \<^verbatim>\<open>assign_query_to_agent\<close> marks the query, then counts the chat on the agent, then
  notifies. The notification is a collaborator that may raise: \<open>notify agent q\<close> is
  \<open>True\<close> when it returns and \<open>False\<close> when it raises. The \<^verbatim>\<open>except\<close> branch
  returns \<^verbatim>\<open>False\<close> and undoes nothing. The query and the agent are given by their
  positions, which the caller takes from the lists of the same state.
\<close>

definition assign_query_to_agent ::
  "(HumanAgent \<Rightarrow> EscalatedQuery \<Rightarrow> bool) \<Rightarrow> datetime \<Rightarrow> nat \<Rightarrow> nat \<Rightarrow> HumanAgentFallback
     \<Rightarrow> bool \<times> HumanAgentFallback" where
  "assign_query_to_agent notify now qi ai st =
     (let q = escalated_queries st ! qi;
          agent = agents st ! ai;
          q' = q\<lparr>agent_id := a_id agent, q_status := ''assigned'',
                  assigned_time := isoformat now\<rparr>;
          agent' = agent\<lparr>current_chats := current_chats agent + 1,
                          last_activity := isoformat now\<rparr>;
          st' = st\<lparr>agents := (agents st)[ai := agent'],
                    escalated_queries := (escalated_queries st)[qi := q']\<rparr>
      in if notify agent' q' then (True, st') else (False, st'))"

definition pending_queries :: "HumanAgentFallback \<Rightarrow> nat list" where
  "pending_queries st =
     filter (\<lambda>i. q_status (escalated_queries st ! i) = ''pending'')
       [0..<length (escalated_queries st)]"

definition assign_one ::
  "(HumanAgent \<Rightarrow> EscalatedQuery \<Rightarrow> bool) \<Rightarrow> datetime \<Rightarrow> nat \<Rightarrow> HumanAgentFallback
     \<Rightarrow> HumanAgentFallback" where
  "assign_one notify now qi st =
     (case find_best_agent (agents st) (escalated_queries st ! qi) of
        None \<Rightarrow> st
      | Some ai \<Rightarrow> snd (assign_query_to_agent notify now qi ai st))"

text \<open>One pass of the background loop: the pending queries of the snapshot, oldest first.\<close>

definition assign_pending_queries ::
  "(HumanAgent \<Rightarrow> EscalatedQuery \<Rightarrow> bool) \<Rightarrow> datetime \<Rightarrow> HumanAgentFallback
     \<Rightarrow> HumanAgentFallback" where
  "assign_pending_queries notify now st = fold (assign_one notify now) (pending_queries st) st"

section \<open>Wait time, escalation, resolution, agent status\<close>

text \<open>
  The estimate is computed in double precision, and its digits depend on the rounding,
  so the three operations it uses are modelled as IEEE 754 binary64 operations. A finite
  double is a pair \<open>(m, e)\<close> standing for \<open>m * 2 ^ e\<close>; only non-negative values occur.
  Every operation rounds the exact result to 53 significant bits, ties to even. The
  exponent range is not modelled: the operands are list lengths, far from overflow and
  underflow.
\<close>

type_synonym float64 = "nat \<times> int"

definition float_value :: "float64 \<Rightarrow> real" where
  "float_value x = real (fst x) * 2 powi snd x"

fun bit_length :: "nat \<Rightarrow> nat" where
  "bit_length n = (if n = 0 then 0 else Suc (bit_length (n div 2)))"

declare bit_length.simps [simp del]

text \<open>The quotient \<open>n / d\<close> rounded to the nearest integer, ties to the even one.\<close>

definition rne_div :: "nat \<Rightarrow> nat \<Rightarrow> nat" where
  "rne_div n d =
     (let q = n div d; r = n mod d
      in if 2 * r < d then q
         else if 2 * r > d then q + 1
         else if even q then q else q + 1)"

definition round53 :: "float64 \<Rightarrow> float64" where
  "round53 x =
     (let m = fst x; e = snd x
      in if bit_length m \<le> 53 then (m, e)
         else (let s = bit_length m - 53 in (rne_div m (2 ^ s), e + int s)))"

text \<open>\<^verbatim>\<open>float(n)\<close> for a non-negative integer, and the product of two doubles.\<close>

definition float_of_nat :: "nat \<Rightarrow> float64" where
  "float_of_nat n = round53 (n, 0)"

definition float_mul :: "float64 \<Rightarrow> float64 \<Rightarrow> float64" where
  "float_mul x y = round53 (fst x * fst y, snd x + snd y)"

text \<open>
  \<^verbatim>\<open>p / a\<close> on positive integers: the exact quotient is scaled by \<open>2 ^ k\<close> into
  the interval from \<open>2 ^ 52\<close> to \<open>2 ^ 53\<close> and rounded there. A zero divisor raises
  \<^verbatim>\<open>ZeroDivisionError\<close>, which is \<open>None\<close>.
\<close>

definition scaled_fraction :: "nat \<Rightarrow> nat \<Rightarrow> int \<Rightarrow> nat \<times> nat" where
  "scaled_fraction p a k = (if k \<ge> 0 then (p * 2 ^ nat k, a) else (p, a * 2 ^ nat (- k)))"

definition int_truediv :: "nat \<Rightarrow> nat \<Rightarrow> float64 option" where
  "int_truediv p a =
     (if a = 0 then None
      else if p = 0 then Some (0, 0)
      else (let k0 = 53 + int (bit_length a) - int (bit_length p);
                (n0, d0) = scaled_fraction p a k0;
                k = (if n0 \<ge> d0 * 2 ^ 53 then k0 - 1 else k0);
                (n, d) = scaled_fraction p a k
            in Some (rne_div n d, - k)))"

text \<open>\<^verbatim>\<open>int(x)\<close> truncates; \<^verbatim>\<open>str\<close> of a non-negative integer is \<open>str_nat\<close>.\<close>

definition py_int :: "float64 \<Rightarrow> nat" where
  "py_int x = (if snd x \<ge> 0 then fst x * 2 ^ nat (snd x) else fst x div 2 ^ nat (- snd x))"

definition float_1_5 :: float64 where
  "float_1_5 = (3, - 1)"

definition get_estimated_wait_time :: "HumanAgentFallback \<Rightarrow> string" where
  "get_estimated_wait_time st =
     (let available = length (filter is_available (agents st));
          pending = length (filter (\<lambda>q. q_status q = ''pending'') (escalated_queries st))
      in if available = 0 then ''15-30 minutes''
         else if pending = 0 then ''2-5 minutes''
         else (case int_truediv pending available of
                 None \<Rightarrow> []
               | Some ratio \<Rightarrow>
                   (let wait_time = float_mul ratio (float_of_nat 10)
                    in str_nat (py_int wait_time) @ ''-'' @
                       str_nat (py_int (float_mul wait_time float_1_5)) @ '' minutes'')))"

record EscalateResponse =
  success :: bool
  query_id :: "string option"
  message :: string
  estimated_wait_time :: "string option"

text \<open>
  \<^verbatim>\<open>escalate_query\<close>. The identifier is the clock reading to the second. The new
  record has no \<^verbatim>\<open>language\<close> attribute, and the argument is stored only if it has one.
  Nothing in the \<^verbatim>\<open>try\<close> block raises, so the failure response is never built.
\<close>

definition escalate_query ::
  "datetime \<Rightarrow> string \<Rightarrow> string \<Rightarrow> EscalationReason \<Rightarrow> int \<Rightarrow> string \<Rightarrow> HumanAgentFallback
     \<Rightarrow> EscalateResponse \<times> HumanAgentFallback" where
  "escalate_query now cust qtext rsn prio lang st =
     (let qid = ''ESC_'' @ strftime_YmdHMS now;
          escalated_query =
            \<lparr>q_id = qid, customer_id = cust, query = qtext,
             complexity = (if prio \<ge> 4 then CRITICAL else COMPLEX),
             reason = rsn, agent_id = [], q_status = ''pending'',
             created_time = isoformat now, assigned_time = [], resolved_time = [],
             priority = prio, q_notes = [], language = None\<rparr>;
          escalated_query' =
            (if language escalated_query \<noteq> None
             then escalated_query\<lparr>language := Some lang\<rparr> else escalated_query);
          st' = st\<lparr>escalated_queries := escalated_queries st @ [escalated_query']\<rparr>
      in (\<lparr>success = True, query_id = Some qid,
           message = ''Query escalated to human agent. You will receive a response shortly.'',
           estimated_wait_time = Some (get_estimated_wait_time st')\<rparr>, st'))"

fun first_index :: "('a \<Rightarrow> bool) \<Rightarrow> 'a list \<Rightarrow> nat option" where
  "first_index P [] = None"
| "first_index P (x # xs) = (if P x then Some 0 else map_option Suc (first_index P xs))"

text \<open>
  \<^verbatim>\<open>resolve_query\<close>: the first query with the identifier is marked resolved, whatever
  its status was, and the first agent whose identifier is the query's \<^verbatim>\<open>agent_id\<close>
  gives one chat back, not below zero.
\<close>

definition release_agent :: "string \<Rightarrow> HumanAgent list \<Rightarrow> HumanAgent list" where
  "release_agent aid ags =
     (case first_index (\<lambda>agent. a_id agent = aid) ags of
        None \<Rightarrow> ags
      | Some ai \<Rightarrow> ags[ai := (ags ! ai)\<lparr>current_chats := max 0 (current_chats (ags ! ai) - 1)\<rparr>])"

definition resolve_query ::
  "datetime \<Rightarrow> string \<Rightarrow> string \<Rightarrow> HumanAgentFallback \<Rightarrow> bool \<times> HumanAgentFallback" where
  "resolve_query now qid agent_response st =
     (case first_index (\<lambda>q. q_id q = qid) (escalated_queries st) of
        None \<Rightarrow> (False, st)
      | Some qi \<Rightarrow>
          (let q' = (escalated_queries st ! qi)\<lparr>q_status := ''resolved'',
                                                 resolved_time := isoformat now\<rparr>
           in (True, st\<lparr>escalated_queries := (escalated_queries st)[qi := q'],
                        agents := release_agent (agent_id q') (agents st)\<rparr>)))"

definition update_agent_status ::
  "datetime \<Rightarrow> string \<Rightarrow> AgentStatus \<Rightarrow> HumanAgentFallback \<Rightarrow> bool \<times> HumanAgentFallback" where
  "update_agent_status now aid new_status st =
     (case first_index (\<lambda>agent. a_id agent = aid) (agents st) of
        None \<Rightarrow> (False, st)
      | Some ai \<Rightarrow>
          (True, st\<lparr>agents := (agents st)[ai := (agents st ! ai)\<lparr>a_status := new_status,
                                                 last_activity := isoformat now\<rparr>]\<rparr>))"

section \<open>The initial roster and runs of operations\<close>

definition initialize_agents :: "datetime \<Rightarrow> HumanAgent list" where
  "initialize_agents now =
     [\<lparr>a_id = ''agent_1'', name = ''Rajesh Kumar'', email = ''rajesh@everylingua.com'',
       phone = ''+91-9876543211'', expertise = [''sales'', ''test_rides'', ''finance''],
       languages = [''hi'', ''en'', ''mr''], a_status = AVAILABLE, current_chats = 0,
       max_chats = 5, last_activity = isoformat now\<rparr>,
      \<lparr>a_id = ''agent_2'', name = ''Priya Sharma'', email = ''priya@everylingua.com'',
       phone = ''+91-9876543212'', expertise = [''service'', ''maintenance'', ''complaints''],
       languages = [''en'', ''hi'', ''ta''], a_status = AVAILABLE, current_chats = 0,
       max_chats = 4, last_activity = isoformat now\<rparr>,
      \<lparr>a_id = ''agent_3'', name = ''Amit Patel'', email = ''amit@everylingua.com'',
       phone = ''+91-9876543213'',
       expertise = [''sales'', ''custom_requirements'', ''price_negotiation''],
       languages = [''en'', ''hi'', ''gu''], a_status = AVAILABLE, current_chats = 0,
       max_chats = 6, last_activity = isoformat now\<rparr>,
      \<lparr>a_id = ''agent_4'', name = ''Sneha Reddy'', email = ''sneha@everylingua.com'',
       phone = ''+91-9876543214'', expertise = [''service'', ''emergency'', ''complaints''],
       languages = [''en'', ''hi'', ''te'', ''kn''], a_status = AVAILABLE, current_chats = 0,
       max_chats = 4, last_activity = isoformat now\<rparr>]"

definition init_state :: "datetime \<Rightarrow> HumanAgentFallback" where
  "init_state now =
     \<lparr>agents = initialize_agents now, escalated_queries = [],
      complexity_thresholds = default_thresholds\<rparr>"

text \<open>
  The operations that change the state, each with the clock reading it sees: a call of
  \<^verbatim>\<open>escalate_query\<close>, one pass of the assignment loop (with the behaviour of the
  notification), a call of \<^verbatim>\<open>resolve_query\<close>, a call of \<^verbatim>\<open>update_agent_status\<close>.
\<close>

datatype operation =
    Escalate datetime string string EscalationReason int string
  | Tick "HumanAgent \<Rightarrow> EscalatedQuery \<Rightarrow> bool" datetime
  | Resolve datetime string string
  | UpdateStatus datetime string AgentStatus

fun step :: "operation \<Rightarrow> HumanAgentFallback \<Rightarrow> HumanAgentFallback" where
  "step (Escalate now cust qtext rsn prio lang) st =
     snd (escalate_query now cust qtext rsn prio lang st)"
| "step (Tick notify now) st = assign_pending_queries notify now st"
| "step (Resolve now qid resp) st = snd (resolve_query now qid resp st)"
| "step (UpdateStatus now aid new_status) st = snd (update_agent_status now aid new_status st)"

definition run :: "operation list \<Rightarrow> HumanAgentFallback \<Rightarrow> HumanAgentFallback" where
  "run ops st = fold step ops st"

section \<open>Concrete inputs\<close>

text \<open>Three clock readings; the first two fall within the same second.\<close>

definition reading_1 :: datetime where
  "reading_1 = \<lparr>year = 2024, month = 1, day = 5, hour = 9, minute = 30, second = 7,
                 microsecond = 0\<rparr>"

definition reading_2 :: datetime where
  "reading_2 = \<lparr>year = 2024, month = 1, day = 5, hour = 9, minute = 30, second = 7,
                 microsecond = 250000\<rparr>"

definition reading_3 :: datetime where
  "reading_3 = \<lparr>year = 2024, month = 1, day = 5, hour = 9, minute = 31, second = 0,
                 microsecond = 0\<rparr>"

text \<open>The two agents and the query of the matcher scenario.\<close>

definition agent_A :: HumanAgent where
  "agent_A = \<lparr>a_id = ''A'', name = ''A'', email = [], phone = [], expertise = [''sales''],
               languages = [''en''], a_status = AVAILABLE, current_chats = 0, max_chats = 5,
               last_activity = isoformat reading_1\<rparr>"

definition agent_B :: HumanAgent where
  "agent_B = \<lparr>a_id = ''B'', name = ''B'', email = [], phone = [],
               expertise = [''sales'', ''finance''],
               languages = [''en''], a_status = AVAILABLE, current_chats = 0, max_chats = 5,
               last_activity = isoformat reading_1\<rparr>"

definition negotiation_query :: EscalatedQuery where
  "negotiation_query =
     \<lparr>q_id = ''ESC_20240105093007'', customer_id = ''cust_1'', query = ''best price'',
      complexity = COMPLEX, reason = PRICE_NEGOTIATION, agent_id = [], q_status = ''pending'',
      created_time = isoformat reading_1, assigned_time = [], resolved_time = [],
      priority = 2, q_notes = [], language = None\<rparr>"

text \<open>
  The state after one call of \<^verbatim>\<open>escalate_query\<close> on the initial roster, before
  any pass of the assignment loop, and a notification that raises.
\<close>

definition pending_state :: HumanAgentFallback where
  "pending_state =
     snd (escalate_query reading_1 ''cust_1'' ''where is my order'' COMPLEX_QUERY 1 ''en''
            (init_state reading_1))"

definition failing_notify :: "HumanAgent \<Rightarrow> EscalatedQuery \<Rightarrow> bool" where
  "failing_notify agent q = False"

text \<open>A notification that returns.\<close>

definition working_notify :: "HumanAgent \<Rightarrow> EscalatedQuery \<Rightarrow> bool" where
  "working_notify agent q = True"

text \<open>
  A second call of \<^verbatim>\<open>escalate_query\<close> within the same second as the first, without
  and with a pass of the assignment loop in between.
\<close>

definition colliding_state :: HumanAgentFallback where
  "colliding_state =
     snd (escalate_query reading_2 ''cust_2'' ''second question'' COMPLEX_QUERY 1 ''en''
            pending_state)"

definition assigned_state :: HumanAgentFallback where
  "assigned_state = assign_pending_queries working_notify reading_1 pending_state"

text \<open>
  The state after the first query was assigned and a second one was escalated a minute
  later: agent 3 has one chat, the second query is pending.
\<close>

definition mixed_state :: HumanAgentFallback where
  "mixed_state =
     run [Escalate reading_1 ''cust_1'' ''where is my order'' COMPLEX_QUERY 1 ''en'',
          Tick working_notify reading_1,
          Escalate reading_3 ''cust_2'' ''second question'' COMPLEX_QUERY 1 ''en'']
       (init_state reading_1)"

definition round_trip_state :: HumanAgentFallback where
  "round_trip_state =
     assign_pending_queries working_notify reading_2
       (snd (escalate_query reading_2 ''cust_2'' ''second question'' COMPLEX_QUERY 1 ''en''
               assigned_state))"

text \<open>
  A busy queue: agent 4 has gone offline and 49 queries were escalated, one per second,
  with no pass of the assignment loop yet. And a roster with every agent offline.
\<close>

definition busy_queue_state :: HumanAgentFallback where
  "busy_queue_state =
     run (UpdateStatus reading_1 ''agent_4'' OFFLINE #
          map (\<lambda>i. Escalate (reading_3\<lparr>second := i\<rparr>) ''cust_1'' ''where is my order''
                      COMPLEX_QUERY 1 ''en'') [0..<49])
       (init_state reading_1)"

definition offline_state :: HumanAgentFallback where
  "offline_state =
     run [UpdateStatus reading_1 ''agent_1'' OFFLINE, UpdateStatus reading_1 ''agent_2'' OFFLINE,
          UpdateStatus reading_1 ''agent_3'' OFFLINE, UpdateStatus reading_1 ''agent_4'' OFFLINE]
       (init_state reading_1)"

text \<open>
  The estimate as the specification words it, for comparison with
  \<open>get_estimated_wait_time\<close>: the two fixed bands, and otherwise the range from
  \<open>base\<close> to \<open>base \<times> 1.5\<close> with \<open>base = (pending / available) \<times> 10\<close>, computed in
  exact arithmetic and cut to whole minutes.
\<close>

definition estimate_by_formula :: "nat \<Rightarrow> nat \<Rightarrow> string" where
  "estimate_by_formula available pending =
     (if available = 0 then ''15-30 minutes''
      else if pending = 0 then ''2-5 minutes''
      else (let base = (real pending / real available) * 10
            in str_nat (nat \<lfloor>base\<rfloor>) @ ''-'' @ str_nat (nat \<lfloor>base * (3 / 2)\<rfloor>)
                 @ '' minutes''))"

text \<open>
  The invariants of the agent loads and of the stored queries: the loads stay within
  the limits, a pending query names no agent, no query has a language attribute.
\<close>

definition load_invariant :: "HumanAgentFallback \<Rightarrow> bool" where
  "load_invariant st \<longleftrightarrow>
     (\<forall>agent\<in>set (agents st).
        0 \<le> current_chats agent \<and> current_chats agent \<le> max_chats agent)"

definition pending_unassigned :: "HumanAgentFallback \<Rightarrow> bool" where
  "pending_unassigned st \<longleftrightarrow>
     (\<forall>q\<in>set (escalated_queries st). q_status q = ''pending'' \<longrightarrow> agent_id q = [])"

definition no_language :: "HumanAgentFallback \<Rightarrow> bool" where
  "no_language st \<longleftrightarrow> (\<forall>q\<in>set (escalated_queries st). language q = None)"

section \<open>The classifier on a query that names a fault\<close>

text \<open>
  C1. For the query text "my bike is not working" the claim expects the technical-fault
  rule to be the first rule that fires. As stated this fails: with the default
  thresholds, confidence 1 and latency 0, the classifier does not return
  \<open>(True, TECHNICAL_ISSUE)\<close>.
\<close>

theorem classify_not_working_counterexample:
  "should_escalate_to_human default_thresholds ''my bike is not working'' [] 1 0
     \<noteq> (True, Some TECHNICAL_ISSUE)"
  by (simp add: should_escalate_to_human_def any_keyword_def escalation_keywords_def
      lower_def lower_char_def)

text \<open>
  C1, as amended. For the query text "my bike is not working", whatever the thresholds,
  the confidence and the latency, the classifier returns \<open>(True, CUSTOMER_COMPLAINT)\<close>:
  the phrase "not working" is in the complaint keyword list as well as in the technical
  one, and the complaint rule is evaluated first.
\<close>

theorem classify_not_working:
  "should_escalate_to_human th ''my bike is not working'' ai confidence response_time
     = (True, Some CUSTOMER_COMPLAINT)
   \<and> any_keyword escalation_keywords ''my bike is not working''
   \<and> any_keyword technical_keywords ''my bike is not working''"
  by (simp add: should_escalate_to_human_def any_keyword_def escalation_keywords_def
      technical_keywords_def lower_def lower_char_def)

section \<open>The matcher\<close>

lemma expertise_fold_nonneg:
  "(0::real) \<le> s \<Longrightarrow> 0 \<le> fold (\<lambda>e s. if e \<in> E then s + 2 else s) ws s"
  by (induction ws arbitrary: s) auto

lemma agent_score_available_pos: "is_available agent \<Longrightarrow> 0 < agent_score q agent"
proof -
  assume av: "is_available agent"
  define F where "F = fold (\<lambda>e s. if e \<in> set (expertise agent) then s + 2 else s)
                 (split_on (CHR ''_'') (reason_value (reason q))) (0::real)"
  define C where "C = real_of_int (max_chats agent - current_chats agent) * (1 / 2)"
  have F: "0 \<le> F" unfolding F_def by (rule expertise_fold_nonneg) simp
  have C: "0 < C" using av by (simp add: C_def is_available_def)
  have "agent_score q agent =
      (if priority q \<ge> 4 then (if language_match q agent then F + 1 else F) + 1
       else (if language_match q agent then F + 1 else F)) + C"
    by (simp add: agent_score_def Let_def F_def C_def)
  then show ?thesis using F C by auto
qed

lemma best_loop_spec:
  "best_loop ags q cs (ba, bs) = (r, rs) \<Longrightarrow>
     bs \<le> rs \<and> (\<forall>j<length cs. agent_score q (ags ! (cs ! j)) \<le> rs) \<and>
     ((r = ba \<and> rs = bs) \<or>
      (\<exists>k<length cs. r = Some (cs ! k) \<and> rs = agent_score q (ags ! (cs ! k)) \<and> bs < rs \<and>
          (\<forall>j<k. agent_score q (ags ! (cs ! j)) < rs)))"
proof (induction cs arbitrary: ba bs)
  case Nil
  then show ?case by simp
next
  case (Cons i rest)
  let ?sc = "agent_score q (ags ! i)"
  show ?case
  proof (cases "?sc > bs")
    case True
    with Cons.prems have run: "best_loop ags q rest (Some i, ?sc) = (r, rs)"
      by (simp add: Let_def)
    from Cons.IH[OF run] have le: "?sc \<le> rs"
      and all: "\<forall>j<length rest. agent_score q (ags ! (rest ! j)) \<le> rs"
      and alt: "(r = Some i \<and> rs = ?sc) \<or>
        (\<exists>k<length rest. r = Some (rest ! k) \<and> rs = agent_score q (ags ! (rest ! k)) \<and> ?sc < rs \<and>
          (\<forall>j<k. agent_score q (ags ! (rest ! j)) < rs))"
      by blast+
    have a: "bs \<le> rs" using True le by simp
    have b: "\<forall>j<length (i # rest). agent_score q (ags ! ((i # rest) ! j)) \<le> rs"
      using le all by (auto simp: nth_Cons split: nat.splits)
    from alt have c: "\<exists>k<length (i # rest). r = Some ((i # rest) ! k) \<and>
        rs = agent_score q (ags ! ((i # rest) ! k)) \<and> bs < rs \<and>
        (\<forall>j<k. agent_score q (ags ! ((i # rest) ! j)) < rs)"
    proof
      assume "r = Some i \<and> rs = ?sc"
      then show ?thesis using True by (intro exI[of _ 0]) simp
    next
      assume "\<exists>k<length rest. r = Some (rest ! k) \<and> rs = agent_score q (ags ! (rest ! k)) \<and> ?sc < rs \<and>
          (\<forall>j<k. agent_score q (ags ! (rest ! j)) < rs)"
      then obtain k where k: "k < length rest" "r = Some (rest ! k)"
        "rs = agent_score q (ags ! (rest ! k))" "?sc < rs"
        "\<forall>j<k. agent_score q (ags ! (rest ! j)) < rs" by blast
      show ?thesis
        using k True by (intro exI[of _ "Suc k"]) (auto simp: nth_Cons split: nat.splits)
    qed
    from a b c show ?thesis by blast
  next
    case False
    with Cons.prems have run: "best_loop ags q rest (ba, bs) = (r, rs)"
      by (simp add: Let_def)
    from Cons.IH[OF run] have le: "bs \<le> rs"
      and all: "\<forall>j<length rest. agent_score q (ags ! (rest ! j)) \<le> rs"
      and alt: "(r = ba \<and> rs = bs) \<or>
        (\<exists>k<length rest. r = Some (rest ! k) \<and> rs = agent_score q (ags ! (rest ! k)) \<and> bs < rs \<and>
          (\<forall>j<k. agent_score q (ags ! (rest ! j)) < rs))"
      by blast+
    have b: "\<forall>j<length (i # rest). agent_score q (ags ! ((i # rest) ! j)) \<le> rs"
      using le all False by (auto simp: nth_Cons split: nat.splits)
    from alt have c: "(r = ba \<and> rs = bs) \<or> (\<exists>k<length (i # rest). r = Some ((i # rest) ! k) \<and>
        rs = agent_score q (ags ! ((i # rest) ! k)) \<and> bs < rs \<and>
        (\<forall>j<k. agent_score q (ags ! ((i # rest) ! j)) < rs))"
    proof
      assume "r = ba \<and> rs = bs" then show ?thesis by blast
    next
      assume "\<exists>k<length rest. r = Some (rest ! k) \<and> rs = agent_score q (ags ! (rest ! k)) \<and> bs < rs \<and>
          (\<forall>j<k. agent_score q (ags ! (rest ! j)) < rs)"
      then obtain k where k: "k < length rest" "r = Some (rest ! k)"
        "rs = agent_score q (ags ! (rest ! k))" "bs < rs"
        "\<forall>j<k. agent_score q (ags ! (rest ! j)) < rs" by blast
      have "\<exists>k<length (i # rest). r = Some ((i # rest) ! k) \<and>
        rs = agent_score q (ags ! ((i # rest) ! k)) \<and> bs < rs \<and>
        (\<forall>j<k. agent_score q (ags ! ((i # rest) ! j)) < rs)"
        using k False by (intro exI[of _ "Suc k"]) (auto simp: nth_Cons split: nat.splits)
      then show ?thesis by blast
    qed
    from le b c show ?thesis by blast
  qed
qed

lemma available_agents_nth:
  "j < length (available_agents ags) \<Longrightarrow>
     available_agents ags ! j < length ags \<and> is_available (ags ! (available_agents ags ! j))"
proof -
  assume "j < length (available_agents ags)"
  then have "available_agents ags ! j \<in> set (available_agents ags)" by simp
  then show ?thesis by (simp add: available_agents_def)
qed

text \<open>
  C8. Among the candidates (the available agents below their limit, in registry order)
  \<open>find_best_agent\<close> returns one whose score no other candidate exceeds, and every
  candidate before it in registry order has a strictly smaller score, so among tied
  candidates the first wins. With no candidate it returns none.
\<close>

theorem find_best_agent_policy:
  "(available_agents ags = [] \<longrightarrow> find_best_agent ags q = None) \<and>
   (available_agents ags \<noteq> [] \<longrightarrow>
      (\<exists>k < length (available_agents ags).
         find_best_agent ags q = Some (available_agents ags ! k) \<and>
         (\<forall>j < length (available_agents ags).
            agent_score q (ags ! (available_agents ags ! j))
              \<le> agent_score q (ags ! (available_agents ags ! k))) \<and>
         (\<forall>j < k. agent_score q (ags ! (available_agents ags ! j))
              < agent_score q (ags ! (available_agents ags ! k)))))"
proof (intro conjI impI)
  assume "available_agents ags = []"
  then show "find_best_agent ags q = None" by (simp add: find_best_agent_def)
next
  let ?cs = "available_agents ags"
  assume ne: "?cs \<noteq> []"
  obtain r rs where run: "best_loop ags q ?cs (None, - 1) = (r, rs)"
    by (cases "best_loop ags q ?cs (None, - 1)") blast
  have res: "find_best_agent ags q = r"
    using ne run by (simp add: find_best_agent_def)
  from best_loop_spec[OF run]
  have all: "\<forall>j<length ?cs. agent_score q (ags ! (?cs ! j)) \<le> rs"
    and alt: "(r = None \<and> rs = - 1) \<or>
      (\<exists>k<length ?cs. r = Some (?cs ! k) \<and> rs = agent_score q (ags ! (?cs ! k)) \<and> - 1 < rs \<and>
          (\<forall>j<k. agent_score q (ags ! (?cs ! j)) < rs))"
    by blast+
  have "0 < length ?cs" using ne by simp
  then have "0 < agent_score q (ags ! (?cs ! 0))"
    using available_agents_nth[of 0 ags] agent_score_available_pos by blast
  moreover have "agent_score q (ags ! (?cs ! 0)) \<le> rs" using all \<open>0 < length ?cs\<close> by blast
  ultimately have "rs \<noteq> - 1" by linarith
  with alt obtain k where "k<length ?cs" "r = Some (?cs ! k)" "rs = agent_score q (ags ! (?cs ! k))"
          "\<forall>j<k. agent_score q (ags ! (?cs ! j)) < rs" by blast
  then show "\<exists>k < length ?cs.
         find_best_agent ags q = Some (?cs ! k) \<and>
         (\<forall>j < length ?cs. agent_score q (ags ! (?cs ! j)) \<le> agent_score q (ags ! (?cs ! k))) \<and>
         (\<forall>j < k. agent_score q (ags ! (?cs ! j)) < agent_score q (ags ! (?cs ! k)))"
    using res all by blast
qed

theorem find_best_agent_policy_witness:
  "find_best_agent [agent_A, agent_B] negotiation_query = Some 0"
proof -
  let ?ags = "[agent_A, agent_B]"
  have av: "available_agents ?ags = [0, 1]"
    by (simp add: available_agents_def is_available_def agent_A_def agent_B_def upt_rec)
  have tie: "agent_score negotiation_query agent_A = agent_score negotiation_query agent_B"
    by (simp add: agent_score_def language_match_def agent_A_def agent_B_def
        negotiation_query_def Let_def)
  have ne: "available_agents ?ags \<noteq> []" by (simp add: av)
  from find_best_agent_policy[of ?ags negotiation_query] ne
  obtain k where k: "k < length (available_agents ?ags)"
    "find_best_agent ?ags negotiation_query = Some (available_agents ?ags ! k)"
    "\<forall>j<k. agent_score negotiation_query (?ags ! (available_agents ?ags ! j))
            < agent_score negotiation_query (?ags ! (available_agents ?ags ! k))"
    by blast
  have "k = 0"
  proof (rule ccontr)
    assume "k \<noteq> 0"
    with k(1) have k1: "k = 1" by (simp add: av)
    from k(3) have "agent_score negotiation_query (?ags ! (available_agents ?ags ! 0))
            < agent_score negotiation_query (?ags ! (available_agents ?ags ! 1))"
      unfolding k1 by blast
    then have "agent_score negotiation_query agent_A < agent_score negotiation_query agent_B"
      by (simp add: av)
    with tie show False by simp
  qed
  with k(2) show ?thesis by (simp add: av)
qed

text \<open>
  C2. With agent A (expertise sales) registered before agent B (expertise sales and
  finance), both free with limit 5, and a query with reason PRICE_NEGOTIATION and
  priority 2, the claim expects B, on a higher score. As stated this fails: the matcher
  does not return B (position 1), and the score of B is not higher than that of A.
\<close>

theorem scenario_C_counterexample: "find_best_agent [agent_A, agent_B] negotiation_query \<noteq> Some 1
   \<and> \<not> agent_score negotiation_query agent_B > agent_score negotiation_query agent_A"
  by (simp add: find_best_agent_def available_agents_def is_available_def agent_score_def
      language_match_def agent_A_def agent_B_def negotiation_query_def Let_def upt_rec)

text \<open>
  C2, as amended. For two such agents and such a query, when the language bonus is the
  same for both (as it is for every query made by \<open>escalate_query\<close>), the two scores
  are equal: neither "price" nor "negotiation" is in either expertise list. The matcher
  returns the agent that is first in registry order, that is A when A is registered
  first.
\<close>

theorem scenario_C_tie:
  assumes "expertise A = [''sales'']" "expertise B = [''sales'', ''finance'']"
    and "a_status A = AVAILABLE" "a_status B = AVAILABLE"
    and "current_chats A = 0" "max_chats A = 5" "current_chats B = 0" "max_chats B = 5"
    and "reason q = PRICE_NEGOTIATION" "priority q = 2"
    and "language_match q A = language_match q B"
  shows "agent_score q A = agent_score q B
     \<and> find_best_agent [A, B] q = Some 0 \<and> find_best_agent [B, A] q = Some 0"
proof -
  have sc: "agent_score q A = agent_score q B"
    using assms by (simp add: agent_score_def Let_def)
  have pos: "agent_score q B > - 1"
    using assms by (simp add: agent_score_def Let_def)
  have av: "available_agents [A, B] = [0, 1]" "available_agents [B, A] = [0, 1]"
    using assms by (simp_all add: available_agents_def is_available_def upt_rec)
  show ?thesis using sc pos av by (simp add: find_best_agent_def Let_def)
qed

theorem scenario_C_tie_witness:
  "agent_score negotiation_query agent_A = agent_score negotiation_query agent_B
     \<and> find_best_agent [agent_A, agent_B] negotiation_query = Some 0
     \<and> find_best_agent [agent_B, agent_A] negotiation_query = Some 0"
  using scenario_C_tie[of agent_A agent_B negotiation_query]
  by (simp add: agent_A_def agent_B_def negotiation_query_def language_match_def)

section \<open>Resolution and assignment\<close>

lemma first_index_None: "first_index P xs = None \<longleftrightarrow> (\<forall>x\<in>set xs. \<not> P x)"
  by (induction xs) auto

lemma first_index_Some:
  "first_index P xs = Some i \<Longrightarrow> i < length xs \<and> P (xs ! i) \<and> (\<forall>j<i. \<not> P (xs ! j))"
proof (induction xs arbitrary: i)
  case Nil
  then show ?case by simp
next
  case (Cons x xs)
  show ?case
  proof (cases "P x")
    case True
    with Cons.prems show ?thesis by simp
  next
    case False
    with Cons.prems obtain i' where i': "first_index P xs = Some i'" "i = Suc i'"
      by auto
    from Cons.IH[OF i'(1)] False i'(2) show ?thesis
      by (auto simp: nth_Cons split: nat.splits)
  qed
qed

lemma first_index_fresh:
  "\<forall>x\<in>set xs. \<not> P x \<Longrightarrow> P y \<Longrightarrow> first_index P (xs @ y # ys) = Some (length xs)"
  by (induction xs) auto

lemma first_index_distinct:
  "distinct (map f xs) \<Longrightarrow> i < length xs \<Longrightarrow> first_index (\<lambda>x. f x = f (xs ! i)) xs = Some i"
proof (induction xs arbitrary: i)
  case Nil
  then show ?case by simp
next
  case (Cons x xs)
  show ?case
  proof (cases i)
    case 0
    then show ?thesis by simp
  next
    case (Suc i')
    with Cons.prems have "i' < length xs" "f (xs ! i') \<in> f ` set xs" "f x \<notin> f ` set xs"
      by auto
    then have "f x \<noteq> f (xs ! i')" by auto
    moreover have "first_index (\<lambda>x. f x = f (xs ! i')) xs = Some i'"
      using Cons.IH[of i'] Cons.prems \<open>i' < length xs\<close> by simp
    ultimately show ?thesis using Suc by simp
  qed
qed

lemma isoformat_reading_1: "isoformat reading_1 = ''2024-01-05T09:30:07''"
  by (simp add: isoformat_def reading_1_def zfill_def str_nat.simps digit_def)

lemma isoformat_reading_3: "isoformat reading_3 = ''2024-01-05T09:31:00''"
  by (simp add: isoformat_def reading_3_def zfill_def str_nat.simps digit_def)

lemma strftime_reading_1: "strftime_YmdHMS reading_1 = ''20240105093007''"
  by (simp add: strftime_YmdHMS_def reading_1_def zfill_def str_nat.simps digit_def)

lemma strftime_reading_2: "strftime_YmdHMS reading_2 = ''20240105093007''"
  by (simp add: strftime_YmdHMS_def reading_2_def zfill_def str_nat.simps digit_def)

lemma pending_state_queries:
  "escalated_queries pending_state =
     [\<lparr>q_id = ''ESC_20240105093007'', customer_id = ''cust_1'', query = ''where is my order'',
       complexity = COMPLEX, reason = COMPLEX_QUERY, agent_id = [], q_status = ''pending'',
       created_time = ''2024-01-05T09:30:07'', assigned_time = [], resolved_time = [],
       priority = 1, q_notes = [], language = None\<rparr>]"
  by (simp add: pending_state_def escalate_query_def init_state_def strftime_reading_1
      isoformat_reading_1 Let_def)

lemma pending_state_agents: "agents pending_state = initialize_agents reading_1"
  by (simp add: pending_state_def escalate_query_def init_state_def Let_def)

lemma find_best_agent_Some:
  assumes "find_best_agent ags q = Some ai"
  shows "ai < length ags \<and> is_available (ags ! ai)"
proof -
  let ?cs = "available_agents ags"
  have ne: "?cs \<noteq> []" using assms by (auto simp: find_best_agent_def)
  obtain r rs where run: "best_loop ags q ?cs (None, - 1) = (r, rs)"
    by (cases "best_loop ags q ?cs (None, - 1)") blast
  have "r = Some ai" using ne run assms by (simp add: find_best_agent_def)
  with best_loop_spec[OF run] obtain k where "k < length ?cs" "ai = ?cs ! k" by auto
  then show ?thesis using available_agents_nth by blast
qed

lemma find_best_pending_state:
  "find_best_agent (agents pending_state) (escalated_queries pending_state ! 0) = Some 2"
  by (simp add: find_best_agent_def available_agents_def is_available_def agent_score_def
      language_match_def pending_state_queries pending_state_agents initialize_agents_def
      Let_def upt_rec)

lemma tick_pending_state:
  "assign_pending_queries notify now pending_state
     = snd (assign_query_to_agent notify now 0 2 pending_state)"
proof -
  have "pending_queries pending_state = [0]"
    by (simp add: pending_queries_def pending_state_queries)
  then show ?thesis
    by (simp add: assign_pending_queries_def assign_one_def find_best_pending_state)
qed

text \<open>
  C4. The claim expects that a failure during or after the notification leaves the load
  of the agent at its value before the pass. As stated this fails: with a notification
  that raises, \<^verbatim>\<open>assign_query_to_agent\<close> returns \<^verbatim>\<open>False\<close>, and yet the load of
  the chosen agent has gone from 0 to 1 and the query is marked assigned, also after
  the whole pass of the assignment loop.
\<close>

theorem assignment_counterexample:
  "fst (assign_query_to_agent failing_notify reading_3 0 2 pending_state) = False
  \<and> current_chats (agents pending_state ! 2) = 0
  \<and> current_chats (agents (snd (assign_query_to_agent failing_notify reading_3 0 2 pending_state)) ! 2) = 1
  \<and> q_status (escalated_queries (snd (assign_query_to_agent failing_notify reading_3 0 2 pending_state)) ! 0) = ''assigned''
  \<and> map current_chats (agents (assign_pending_queries failing_notify reading_3 pending_state)) = [0, 0, 1, 0]"
  unfolding tick_pending_state
  by (simp add: assign_query_to_agent_def failing_notify_def pending_state_queries
      pending_state_agents initialize_agents_def Let_def)

text \<open>
  C4, as amended. There is no compensating release. For a query of the state, the
  assignment step either finds no agent and changes nothing, or picks an agent that is
  below its limit and then marks the query assigned to that agent and adds one to the
  load of that agent, both together, leaving every other agent as it was. The outcome of
  the notification decides only the returned flag; the resulting state is the same
  whether the notification returns or raises. So a query is marked assigned only
  together with the count on its agent, and a failure of the notification undoes
  neither.
\<close>

theorem assign_marks_and_counts_together:
  assumes "qi < length (escalated_queries st)"
  shows "(find_best_agent (agents st) (escalated_queries st ! qi) = None
            \<longrightarrow> assign_one notify now qi st = st)
    \<and> (\<forall>ai. find_best_agent (agents st) (escalated_queries st ! qi) = Some ai \<longrightarrow>
          ai < length (agents st)
        \<and> current_chats (agents st ! ai) < max_chats (agents st ! ai)
        \<and> assign_one notify now qi st = snd (assign_query_to_agent notify now qi ai st)
        \<and> fst (assign_query_to_agent notify now qi ai st)
            = notify (agents (assign_one notify now qi st) ! ai)
                (escalated_queries (assign_one notify now qi st) ! qi)
        \<and> assign_one notify now qi st = assign_one (\<lambda>agent q. True) now qi st
        \<and> q_status (escalated_queries (assign_one notify now qi st) ! qi) = ''assigned''
        \<and> agent_id (escalated_queries (assign_one notify now qi st) ! qi) = a_id (agents st ! ai)
        \<and> current_chats (agents (assign_one notify now qi st) ! ai)
            = current_chats (agents st ! ai) + 1
        \<and> (\<forall>j. j \<noteq> ai \<longrightarrow> agents (assign_one notify now qi st) ! j = agents st ! j))"
proof (intro conjI allI impI)
  assume "find_best_agent (agents st) (escalated_queries st ! qi) = None"
  then show "assign_one notify now qi st = st" by (simp add: assign_one_def)
next
  fix ai
  assume fb: "find_best_agent (agents st) (escalated_queries st ! qi) = Some ai"
  from find_best_agent_Some[OF fb] show lt: "ai < length (agents st)"
    and "current_chats (agents st ! ai) < max_chats (agents st ! ai)"
    by (simp_all add: is_available_def)
  show eq: "assign_one notify now qi st = snd (assign_query_to_agent notify now qi ai st)"
    using fb by (simp add: assign_one_def)
  show "fst (assign_query_to_agent notify now qi ai st)
            = notify (agents (assign_one notify now qi st) ! ai)
                (escalated_queries (assign_one notify now qi st) ! qi)"
    using lt assms unfolding eq by (simp add: assign_query_to_agent_def Let_def)
  show "assign_one notify now qi st = assign_one (\<lambda>agent q. True) now qi st"
    using fb by (simp add: assign_one_def assign_query_to_agent_def Let_def)
  show "q_status (escalated_queries (assign_one notify now qi st) ! qi) = ''assigned''"
    using assms unfolding eq by (simp add: assign_query_to_agent_def Let_def)
  show "agent_id (escalated_queries (assign_one notify now qi st) ! qi) = a_id (agents st ! ai)"
    using assms unfolding eq by (simp add: assign_query_to_agent_def Let_def)
  show "current_chats (agents (assign_one notify now qi st) ! ai)
            = current_chats (agents st ! ai) + 1"
    using lt unfolding eq by (simp add: assign_query_to_agent_def Let_def)
  fix j assume "j \<noteq> ai"
  then show "agents (assign_one notify now qi st) ! j = agents st ! j"
    unfolding eq by (simp add: assign_query_to_agent_def Let_def)
qed

theorem assign_marks_and_counts_together_witness:
  "fst (assign_query_to_agent failing_notify reading_3 0 2 pending_state) = False
   \<and> q_status (escalated_queries (assign_one failing_notify reading_3 0 pending_state) ! 0)
       = ''assigned''
   \<and> current_chats (agents (assign_one failing_notify reading_3 0 pending_state) ! 2) = 1"
proof -
  have h: "0 < length (escalated_queries pending_state)"
    by (simp add: pending_state_queries)
  have c: "current_chats (agents pending_state ! 2) = 0"
    by (simp add: pending_state_agents initialize_agents_def)
  from assign_marks_and_counts_together[OF h, of failing_notify reading_3]
    find_best_pending_state
  have a: "fst (assign_query_to_agent failing_notify reading_3 0 2 pending_state)
            = failing_notify (agents (assign_one failing_notify reading_3 0 pending_state) ! 2)
                (escalated_queries (assign_one failing_notify reading_3 0 pending_state) ! 0)"
    and b: "q_status (escalated_queries (assign_one failing_notify reading_3 0 pending_state) ! 0)
            = ''assigned''"
    and d: "current_chats (agents (assign_one failing_notify reading_3 0 pending_state) ! 2)
            = current_chats (agents pending_state ! 2) + 1"
    by blast+
  from a have "fst (assign_query_to_agent failing_notify reading_3 0 2 pending_state) = False"
    by (simp only: failing_notify_def)
  with b c d show ?thesis by simp
qed

section \<open>Invariants of every run\<close>

lemma pending_state_run:
  "pending_state = run [Escalate reading_1 ''cust_1'' ''where is my order'' COMPLEX_QUERY 1 ''en'']
                     (init_state reading_1)"
  by (simp add: pending_state_def run_def)

lemma load_invariant_update:
  assumes "load_invariant st" "0 \<le> current_chats agent'" "current_chats agent' \<le> max_chats agent'"
  shows "load_invariant (st\<lparr>agents := (agents st)[ai := agent']\<rparr>)"
proof -
  have "set ((agents st)[ai := agent']) \<subseteq> insert agent' (set (agents st))"
    by (rule set_update_subset_insert)
  then show ?thesis using assms by (auto simp: load_invariant_def)
qed

lemma load_invariant_nth:
  "load_invariant st \<Longrightarrow> ai < length (agents st) \<Longrightarrow>
     0 \<le> current_chats (agents st ! ai) \<and> current_chats (agents st ! ai) \<le> max_chats (agents st ! ai)"
  by (simp add: load_invariant_def)

lemma load_invariant_assign_one:
  assumes "load_invariant st"
  shows "load_invariant (assign_one notify now qi st)"
proof (cases "find_best_agent (agents st) (escalated_queries st ! qi)")
  case None
  then show ?thesis using assms by (simp add: assign_one_def)
next
  case (Some ai)
  from find_best_agent_Some[OF Some] have lt: "ai < length (agents st)"
    and av: "current_chats (agents st ! ai) < max_chats (agents st ! ai)"
    by (simp_all add: is_available_def)
  from load_invariant_nth[OF assms lt] have nn: "0 \<le> current_chats (agents st ! ai)" by simp
  let ?a = "(agents st ! ai)\<lparr>current_chats := current_chats (agents st ! ai) + 1,
                          last_activity := isoformat now\<rparr>"
  have "load_invariant (st\<lparr>agents := (agents st)[ai := ?a]\<rparr>)"
    using assms nn av by (intro load_invariant_update) simp_all
  then have "load_invariant (snd (assign_query_to_agent notify now qi ai st))"
    by (simp add: assign_query_to_agent_def Let_def load_invariant_def)
  then show ?thesis using Some by (simp add: assign_one_def)
qed

lemma load_invariant_fold_assign:
  "load_invariant st \<Longrightarrow> load_invariant (fold (assign_one notify now) qis st)"
  by (induction qis arbitrary: st) (simp_all add: load_invariant_assign_one)

lemma load_invariant_release:
  assumes "load_invariant st"
  shows "load_invariant (st\<lparr>agents := release_agent aid (agents st)\<rparr>)"
proof (cases "first_index (\<lambda>agent. a_id agent = aid) (agents st)")
  case None
  then show ?thesis using assms by (simp add: release_agent_def load_invariant_def)
next
  case (Some ai)
  then have lt: "ai < length (agents st)" using first_index_Some by blast
  from load_invariant_nth[OF assms lt]
  have "load_invariant (st\<lparr>agents := (agents st)[ai := (agents st ! ai)
          \<lparr>current_chats := max 0 (current_chats (agents st ! ai) - 1)\<rparr>]\<rparr>)"
    using assms by (intro load_invariant_update) simp_all
  then show ?thesis using Some by (simp add: release_agent_def)
qed

lemma load_invariant_step:
  assumes "load_invariant st"
  shows "load_invariant (step operation st)"
proof (cases operation)
  case (Escalate now cust qtext rsn prio lang)
  then show ?thesis using assms by (simp add: escalate_query_def Let_def load_invariant_def)
next
  case (Tick notify now)
  then show ?thesis using assms
    by (simp add: assign_pending_queries_def load_invariant_fold_assign)
next
  case (Resolve now qid resp)
  show ?thesis
  proof (cases "first_index (\<lambda>q. q_id q = qid) (escalated_queries st)")
    case None
    then show ?thesis using assms Resolve by (simp add: resolve_query_def)
  next
    case (Some qi)
    have "load_invariant (st\<lparr>agents := release_agent
            (agent_id ((escalated_queries st ! qi)\<lparr>q_status := ''resolved'',
                 resolved_time := isoformat now\<rparr>)) (agents st)\<rparr>)"
      using assms by (rule load_invariant_release)
    then show ?thesis using Some Resolve
      by (simp add: resolve_query_def Let_def load_invariant_def)
  qed
next
  case (UpdateStatus now aid new_status)
  show ?thesis
  proof (cases "first_index (\<lambda>agent. a_id agent = aid) (agents st)")
    case None
    then show ?thesis using assms UpdateStatus by (simp add: update_agent_status_def)
  next
    case (Some ai)
    then have lt: "ai < length (agents st)" using first_index_Some by blast
    from load_invariant_nth[OF assms lt]
    have "load_invariant (st\<lparr>agents := (agents st)[ai := (agents st ! ai)\<lparr>a_status := new_status,
                                                 last_activity := isoformat now\<rparr>]\<rparr>)"
      using assms by (intro load_invariant_update) simp_all
    then show ?thesis using Some UpdateStatus by (simp add: update_agent_status_def)
  qed
qed

lemma load_invariant_run: "load_invariant st \<Longrightarrow> load_invariant (run ops st)"
  unfolding run_def by (induction ops arbitrary: st) (simp_all add: load_invariant_step)

lemma load_invariant_init: "load_invariant (init_state now)"
  by (simp add: load_invariant_def init_state_def initialize_agents_def)

text \<open>
  C5. After every finite sequence of calls of \<^verbatim>\<open>escalate_query\<close>, passes of the
  assignment loop, calls of \<^verbatim>\<open>resolve_query\<close> and calls of
  \<^verbatim>\<open>update_agent_status\<close>, started from the initial roster, every agent has a load
  between 0 and its limit. (The sequence is arbitrary, so this holds after each
  operation of a run.)
\<close>

theorem load_within_limits:
  "\<forall>agent\<in>set (agents (run ops (init_state now))).
      0 \<le> current_chats agent \<and> current_chats agent \<le> max_chats agent"
  using load_invariant_run[OF load_invariant_init, of ops now]
  by (simp add: load_invariant_def)

theorem load_within_limits_witness:
  "0 \<le> current_chats (agents pending_state ! 2)
   \<and> current_chats (agents pending_state ! 2) \<le> max_chats (agents pending_state ! 2)"
proof -
  have "agents pending_state ! 2 \<in> set (agents pending_state)"
    by (simp add: pending_state_agents initialize_agents_def)
  with load_within_limits[of
      "[Escalate reading_1 ''cust_1'' ''where is my order'' COMPLEX_QUERY 1 ''en'']" reading_1]
  show ?thesis unfolding pending_state_run[symmetric] by blast
qed

lemma no_language_update:
  assumes "no_language st" "qi < length (escalated_queries st) \<longrightarrow> language q' = None"
  shows "no_language (st\<lparr>escalated_queries := (escalated_queries st)[qi := q']\<rparr>)"
proof (cases "qi < length (escalated_queries st)")
  case True
  have "set ((escalated_queries st)[qi := q']) \<subseteq> insert q' (set (escalated_queries st))"
    by (rule set_update_subset_insert)
  then show ?thesis using assms True by (auto simp: no_language_def)
next
  case False
  then have "length (escalated_queries st) \<le> qi" by simp
  then have "(escalated_queries st)[qi := q'] = escalated_queries st"
    by (rule list_update_beyond)
  then show ?thesis using assms by (simp add: no_language_def)
qed

lemma no_language_assign_one:
  assumes "no_language st"
  shows "no_language (assign_one notify now qi st)"
proof (cases "find_best_agent (agents st) (escalated_queries st ! qi)")
  case None
  then show ?thesis using assms by (simp add: assign_one_def)
next
  case (Some ai)
  let ?q = "(escalated_queries st ! qi)\<lparr>agent_id := a_id (agents st ! ai),
               q_status := ''assigned'', assigned_time := isoformat now\<rparr>"
  have "no_language (st\<lparr>escalated_queries := (escalated_queries st)[qi := ?q]\<rparr>)"
    using assms by (intro no_language_update) (simp_all add: no_language_def)
  then have "no_language (snd (assign_query_to_agent notify now qi ai st))"
    by (simp add: assign_query_to_agent_def Let_def no_language_def)
  then show ?thesis using Some by (simp add: assign_one_def)
qed

lemma no_language_fold_assign:
  "no_language st \<Longrightarrow> no_language (fold (assign_one notify now) qis st)"
  by (induction qis arbitrary: st) (simp_all add: no_language_assign_one)

lemma no_language_step:
  assumes "no_language st"
  shows "no_language (step operation st)"
proof (cases operation)
  case (Escalate now cust qtext rsn prio lang)
  then show ?thesis using assms by (simp add: escalate_query_def Let_def no_language_def)
next
  case (Tick notify now)
  then show ?thesis using assms
    by (simp add: assign_pending_queries_def no_language_fold_assign)
next
  case (Resolve now qid resp)
  show ?thesis
  proof (cases "first_index (\<lambda>q. q_id q = qid) (escalated_queries st)")
    case None
    then show ?thesis using assms Resolve by (simp add: resolve_query_def)
  next
    case (Some qi)
    let ?q = "(escalated_queries st ! qi)\<lparr>q_status := ''resolved'',
                 resolved_time := isoformat now\<rparr>"
    have "no_language (st\<lparr>escalated_queries := (escalated_queries st)[qi := ?q]\<rparr>)"
      using assms by (intro no_language_update) (simp_all add: no_language_def)
    then show ?thesis using Some Resolve
      by (simp add: resolve_query_def Let_def no_language_def)
  qed
next
  case (UpdateStatus now aid new_status)
  then show ?thesis using assms
    by (simp add: update_agent_status_def no_language_def split: option.splits)
qed

lemma no_language_run: "no_language st \<Longrightarrow> no_language (run ops st)"
  unfolding run_def by (induction ops arbitrary: st) (simp_all add: no_language_step)

text \<open>
  C10. The record that \<^verbatim>\<open>escalate_query\<close> stores has no \<^verbatim>\<open>language\<close> attribute,
  and the resulting state does not depend on the language argument. No operation adds
  the attribute later: in every state of every run from the initial roster no stored
  query has it, so the language test of the matcher is false for every stored query and
  every agent, and the bonus of 1 is never added.
\<close>

theorem language_bonus_never_awarded:
  "language (last (escalated_queries (snd (escalate_query now cust qtext rsn prio lang st))))
     = None
   \<and> snd (escalate_query now cust qtext rsn prio lang st)
       = snd (escalate_query now cust qtext rsn prio lang' st)
   \<and> (\<forall>q\<in>set (escalated_queries (run ops (init_state now0))).
        language q = None \<and> (\<forall>agent. \<not> language_match q agent))"
proof (intro conjI)
  show "language (last (escalated_queries (snd (escalate_query now cust qtext rsn prio lang st))))
     = None"
    by (simp add: escalate_query_def Let_def)
  show "snd (escalate_query now cust qtext rsn prio lang st)
       = snd (escalate_query now cust qtext rsn prio lang' st)"
    by (simp add: escalate_query_def Let_def)
  have "no_language (init_state now0)" by (simp add: no_language_def init_state_def)
  then have "no_language (run ops (init_state now0))" by (rule no_language_run)
  then show "\<forall>q\<in>set (escalated_queries (run ops (init_state now0))).
        language q = None \<and> (\<forall>agent. \<not> language_match q agent)"
    by (simp add: no_language_def language_match_def)
qed

theorem language_bonus_never_awarded_witness:
  "language (escalated_queries pending_state ! 0) = None
   \<and> \<not> language_match (escalated_queries pending_state ! 0) (agents pending_state ! 0)"
proof -
  have "escalated_queries pending_state ! 0 \<in> set (escalated_queries pending_state)"
    by (simp add: pending_state_queries)
  with language_bonus_never_awarded[of reading_1 "''cust_1''" "''where is my order''"
      COMPLEX_QUERY 1 "''en''" "init_state reading_1" "''hi''"
      "[Escalate reading_1 ''cust_1'' ''where is my order'' COMPLEX_QUERY 1 ''en'']" reading_1]
  show ?thesis unfolding pending_state_run[symmetric] by blast
qed

section \<open>The agent identifiers never change\<close>

lemma agent_ids_assign_one:
  "map a_id (agents (assign_one notify now qi st)) = map a_id (agents st)"
proof (cases "find_best_agent (agents st) (escalated_queries st ! qi)")
  case None
  then show ?thesis by (simp add: assign_one_def)
next
  case (Some ai)
  from find_best_agent_Some[OF Some] have "ai < length (agents st)" by simp
  then show ?thesis using Some
    by (simp add: assign_one_def assign_query_to_agent_def Let_def map_update list_update_same_conv)
qed

lemma agent_ids_fold_assign:
  "map a_id (agents (fold (assign_one notify now) qis st)) = map a_id (agents st)"
  by (induction qis arbitrary: st) (simp_all add: agent_ids_assign_one)

lemma agent_ids_release: "map a_id (release_agent aid ags) = map a_id ags"
proof (cases "first_index (\<lambda>agent. a_id agent = aid) ags")
  case None
  then show ?thesis by (simp add: release_agent_def)
next
  case (Some ai)
  then have "ai < length ags" using first_index_Some by blast
  then show ?thesis using Some
    by (simp add: release_agent_def map_update list_update_same_conv)
qed

lemma agent_ids_step: "map a_id (agents (step operation st)) = map a_id (agents st)"
proof (cases operation)
  case (Escalate now cust qtext rsn prio lang)
  then show ?thesis by (simp add: escalate_query_def Let_def)
next
  case (Tick notify now)
  then show ?thesis by (simp add: assign_pending_queries_def agent_ids_fold_assign)
next
  case (Resolve now qid resp)
  then show ?thesis
    by (simp add: resolve_query_def Let_def agent_ids_release split: option.splits)
next
  case (UpdateStatus now aid new_status)
  show ?thesis
  proof (cases "first_index (\<lambda>agent. a_id agent = aid) (agents st)")
    case None
    then show ?thesis using UpdateStatus by (simp add: update_agent_status_def)
  next
    case (Some ai)
    then have "ai < length (agents st)" using first_index_Some by blast
    then show ?thesis using Some UpdateStatus
      by (simp add: update_agent_status_def map_update list_update_same_conv)
  qed
qed

lemma agent_ids_run: "map a_id (agents (run ops st)) = map a_id (agents st)"
  unfolding run_def by (induction ops arbitrary: st) (simp_all add: agent_ids_step)

section \<open>Resolving a pending query\<close>

lemma pending_unassigned_update:
  assumes "pending_unassigned st" "q_status q' \<noteq> ''pending''"
  shows "pending_unassigned (st\<lparr>escalated_queries := (escalated_queries st)[qi := q']\<rparr>)"
proof -
  have "set ((escalated_queries st)[qi := q']) \<subseteq> insert q' (set (escalated_queries st))"
    by (rule set_update_subset_insert)
  then show ?thesis using assms by (auto simp: pending_unassigned_def)
qed

lemma pending_unassigned_assign_one:
  assumes "pending_unassigned st"
  shows "pending_unassigned (assign_one notify now qi st)"
proof (cases "find_best_agent (agents st) (escalated_queries st ! qi)")
  case None
  then show ?thesis using assms by (simp add: assign_one_def)
next
  case (Some ai)
  let ?q = "(escalated_queries st ! qi)\<lparr>agent_id := a_id (agents st ! ai),
               q_status := ''assigned'', assigned_time := isoformat now\<rparr>"
  have "pending_unassigned (st\<lparr>escalated_queries := (escalated_queries st)[qi := ?q]\<rparr>)"
    using assms by (rule pending_unassigned_update) simp
  then have "pending_unassigned (snd (assign_query_to_agent notify now qi ai st))"
    by (simp add: assign_query_to_agent_def Let_def pending_unassigned_def)
  then show ?thesis using Some by (simp add: assign_one_def)
qed

lemma pending_unassigned_fold_assign:
  "pending_unassigned st \<Longrightarrow> pending_unassigned (fold (assign_one notify now) qis st)"
  by (induction qis arbitrary: st) (simp_all add: pending_unassigned_assign_one)

lemma pending_unassigned_step:
  assumes "pending_unassigned st"
  shows "pending_unassigned (step operation st)"
proof (cases operation)
  case (Escalate now cust qtext rsn prio lang)
  then show ?thesis using assms
    by (simp add: escalate_query_def Let_def pending_unassigned_def)
next
  case (Tick notify now)
  then show ?thesis using assms
    by (simp add: assign_pending_queries_def pending_unassigned_fold_assign)
next
  case (Resolve now qid resp)
  show ?thesis
  proof (cases "first_index (\<lambda>q. q_id q = qid) (escalated_queries st)")
    case None
    then show ?thesis using assms Resolve by (simp add: resolve_query_def)
  next
    case (Some qi)
    let ?q = "(escalated_queries st ! qi)\<lparr>q_status := ''resolved'',
                 resolved_time := isoformat now\<rparr>"
    have "pending_unassigned (st\<lparr>escalated_queries := (escalated_queries st)[qi := ?q]\<rparr>)"
      using assms by (rule pending_unassigned_update) simp
    then show ?thesis using Some Resolve
      by (simp add: resolve_query_def Let_def pending_unassigned_def)
  qed
next
  case (UpdateStatus now aid new_status)
  then show ?thesis using assms
    by (simp add: update_agent_status_def pending_unassigned_def split: option.splits)
qed

lemma pending_unassigned_run: "pending_unassigned st \<Longrightarrow> pending_unassigned (run ops st)"
  unfolding run_def by (induction ops arbitrary: st) (simp_all add: pending_unassigned_step)

lemma pending_names_no_agent:
  assumes "st = run ops (init_state now0)" "qi < length (escalated_queries st)"
    and "q_status (escalated_queries st ! qi) = ''pending''"
  shows "\<forall>agent\<in>set (agents st). a_id agent \<noteq> agent_id (escalated_queries st ! qi)"
proof -
  have "pending_unassigned (init_state now0)"
    by (simp add: pending_unassigned_def init_state_def)
  then have "pending_unassigned st" unfolding assms(1) by (rule pending_unassigned_run)
  moreover have "escalated_queries st ! qi \<in> set (escalated_queries st)"
    using assms(2) by simp
  ultimately have empty: "agent_id (escalated_queries st ! qi) = []"
    using assms(3) by (simp add: pending_unassigned_def)
  have "map a_id (agents st) = [''agent_1'', ''agent_2'', ''agent_3'', ''agent_4'']"
    unfolding assms(1) by (simp add: agent_ids_run init_state_def initialize_agents_def)
  then have "set (map a_id (agents st)) = {''agent_1'', ''agent_2'', ''agent_3'', ''agent_4''}"
    by simp
  then have "[] \<notin> a_id ` set (agents st)" by simp
  then show ?thesis unfolding empty by force
qed

text \<open>
  C3. The claim expects \<^verbatim>\<open>resolve_query\<close> on a pending, never assigned query to
  fail and to leave the status and the resolved timestamp as they were. As stated this
  fails: on the state with one pending query, resolving its identifier returns
  \<^verbatim>\<open>True\<close>, the status goes from pending to resolved and the resolved timestamp
  is set.
\<close>

theorem resolve_pending_counterexample:
  "fst (resolve_query reading_3 ''ESC_20240105093007'' ''done'' pending_state) = True
  \<and> map q_status (escalated_queries pending_state) = [''pending'']
  \<and> map q_status (escalated_queries (snd (resolve_query reading_3 ''ESC_20240105093007'' ''done'' pending_state))) = [''resolved'']
  \<and> map resolved_time (escalated_queries pending_state) = [[]]
  \<and> map resolved_time (escalated_queries (snd (resolve_query reading_3 ''ESC_20240105093007'' ''done'' pending_state))) = [''2024-01-05T09:31:00'']"
  by (simp add: resolve_query_def pending_state_queries isoformat_reading_3 Let_def)

text \<open>
  C3, as amended. \<^verbatim>\<open>resolve_query\<close> has no check of the status. For an identifier
  that no query carries it returns \<^verbatim>\<open>False\<close> and leaves the state as it was. For
  an identifier whose first query is pending it returns \<^verbatim>\<open>True\<close>, marks that query
  resolved and sets its resolved timestamp. In every state of a run from the initial
  roster a pending query has an empty \<^verbatim>\<open>agent_id\<close>, which is the identifier of no
  agent, so resolving it leaves every agent, and with it every load, as it was.
\<close>

theorem resolve_query_pending:
  "((\<forall>q\<in>set (escalated_queries st). q_id q \<noteq> qid)
      \<longrightarrow> resolve_query now qid resp st = (False, st)) \<and>
   (first_index (\<lambda>q. q_id q = qid) (escalated_queries st) = Some qi
      \<and> q_status (escalated_queries st ! qi) = ''pending''
      \<longrightarrow> fst (resolve_query now qid resp st) = True
        \<and> q_status (escalated_queries (snd (resolve_query now qid resp st)) ! qi) = ''resolved''
        \<and> resolved_time (escalated_queries (snd (resolve_query now qid resp st)) ! qi)
            = isoformat now) \<and>
   (st = run ops (init_state now0)
      \<and> first_index (\<lambda>q. q_id q = qid) (escalated_queries st) = Some qi
      \<and> q_status (escalated_queries st ! qi) = ''pending''
      \<longrightarrow> agent_id (escalated_queries st ! qi) = []
        \<and> agents (snd (resolve_query now qid resp st)) = agents st)"
proof (intro conjI impI)
  assume "\<forall>q\<in>set (escalated_queries st). q_id q \<noteq> qid"
  then have "first_index (\<lambda>q. q_id q = qid) (escalated_queries st) = None"
    by (simp add: first_index_None)
  then show "resolve_query now qid resp st = (False, st)"
    by (simp add: resolve_query_def)
next
  assume h: "first_index (\<lambda>q. q_id q = qid) (escalated_queries st) = Some qi
      \<and> q_status (escalated_queries st ! qi) = ''pending''"
  then have lt: "qi < length (escalated_queries st)" using first_index_Some by blast
  show "fst (resolve_query now qid resp st) = True"
    using h by (simp add: resolve_query_def Let_def)
  show "q_status (escalated_queries (snd (resolve_query now qid resp st)) ! qi) = ''resolved''"
    using h lt by (simp add: resolve_query_def Let_def)
  show "resolved_time (escalated_queries (snd (resolve_query now qid resp st)) ! qi) = isoformat now"
    using h lt by (simp add: resolve_query_def Let_def)
next
  assume h: "st = run ops (init_state now0)
      \<and> first_index (\<lambda>q. q_id q = qid) (escalated_queries st) = Some qi
      \<and> q_status (escalated_queries st ! qi) = ''pending''"
  then have st: "st = run ops (init_state now0)"
    and fi: "first_index (\<lambda>q. q_id q = qid) (escalated_queries st) = Some qi"
    and pe: "q_status (escalated_queries st ! qi) = ''pending''" by blast+
  from fi have lt: "qi < length (escalated_queries st)" using first_index_Some by blast
  have "pending_unassigned (init_state now0)"
    by (simp add: pending_unassigned_def init_state_def)
  then have "pending_unassigned st" unfolding st by (rule pending_unassigned_run)
  moreover have "escalated_queries st ! qi \<in> set (escalated_queries st)" using lt by simp
  ultimately show "agent_id (escalated_queries st ! qi) = []"
    using pe by (simp add: pending_unassigned_def)
  from pending_names_no_agent[OF st lt pe]
  have "first_index (\<lambda>agent. a_id agent = agent_id (escalated_queries st ! qi)) (agents st) = None"
    by (simp add: first_index_None)
  then show "agents (snd (resolve_query now qid resp st)) = agents st"
    using fi by (simp add: resolve_query_def Let_def release_agent_def)
qed

lemma strftime_reading_3: "strftime_YmdHMS reading_3 = ''20240105093100''"
  by (simp add: strftime_YmdHMS_def reading_3_def zfill_def str_nat.simps digit_def)

lemma mixed_state_eval:
  "mixed_state
     = snd (escalate_query reading_3 ''cust_2'' ''second question'' COMPLEX_QUERY 1 ''en''
              (snd (assign_query_to_agent working_notify reading_1 0 2 pending_state)))
   \<and> map q_id (escalated_queries mixed_state) = [''ESC_20240105093007'', ''ESC_20240105093100'']
   \<and> map q_status (escalated_queries mixed_state) = [''assigned'', ''pending'']
   \<and> map current_chats (agents mixed_state) = [0, 0, 1, 0]"
proof -
  let ?st = "snd (escalate_query reading_3 ''cust_2'' ''second question'' COMPLEX_QUERY 1 ''en''
              (snd (assign_query_to_agent working_notify reading_1 0 2 pending_state)))"
  have eq: "mixed_state = ?st"
    by (simp add: mixed_state_def run_def pending_state_def[symmetric] tick_pending_state)
  have "map q_id (escalated_queries ?st) = [''ESC_20240105093007'', ''ESC_20240105093100'']
   \<and> map q_status (escalated_queries ?st) = [''assigned'', ''pending'']
   \<and> map current_chats (agents ?st) = [0, 0, 1, 0]"
    by (simp add: escalate_query_def assign_query_to_agent_def working_notify_def
        pending_state_queries pending_state_agents initialize_agents_def strftime_reading_3
        Let_def)
  then show ?thesis unfolding eq by simp
qed

theorem resolve_query_pending_witness:
  "resolve_query reading_3 ''ESC_19990101000000'' ''done'' mixed_state = (False, mixed_state)
   \<and> fst (resolve_query reading_3 ''ESC_20240105093100'' ''done'' mixed_state) = True
   \<and> q_status (escalated_queries
        (snd (resolve_query reading_3 ''ESC_20240105093100'' ''done'' mixed_state)) ! 1)
       = ''resolved''
   \<and> agents (snd (resolve_query reading_3 ''ESC_20240105093100'' ''done'' mixed_state))
       = agents mixed_state
   \<and> map current_chats
        (agents (snd (resolve_query reading_3 ''ESC_20240105093100'' ''done'' mixed_state)))
       = [0, 0, 1, 0]"
proof -
  have ids: "map q_id (escalated_queries mixed_state)
      = [''ESC_20240105093007'', ''ESC_20240105093100'']"
    and sts: "map q_status (escalated_queries mixed_state) = [''assigned'', ''pending'']"
    and lds: "map current_chats (agents mixed_state) = [0, 0, 1, 0]"
    using mixed_state_eval by blast+
  from ids sts obtain q0 q1 where qs: "escalated_queries mixed_state = [q0, q1]"
    "q_id q0 = ''ESC_20240105093007''" "q_id q1 = ''ESC_20240105093100''"
    "q_status q1 = ''pending''"
    by (auto simp: map_eq_Cons_conv)
  have h1: "\<forall>q\<in>set (escalated_queries mixed_state). q_id q \<noteq> ''ESC_19990101000000''"
    by (simp add: qs)
  have h2: "first_index (\<lambda>q. q_id q = ''ESC_20240105093100'') (escalated_queries mixed_state)
              = Some 1
            \<and> q_status (escalated_queries mixed_state ! 1) = ''pending''"
    by (simp add: qs)
  have h3: "mixed_state =
     run [Escalate reading_1 ''cust_1'' ''where is my order'' COMPLEX_QUERY 1 ''en'',
          Tick working_notify reading_1,
          Escalate reading_3 ''cust_2'' ''second question'' COMPLEX_QUERY 1 ''en'']
       (init_state reading_1)"
    by (rule mixed_state_def)
  from h1 h2 h3
    resolve_query_pending[of mixed_state "''ESC_19990101000000''" reading_3 "''done''" 1
      "[Escalate reading_1 ''cust_1'' ''where is my order'' COMPLEX_QUERY 1 ''en'',
        Tick working_notify reading_1,
        Escalate reading_3 ''cust_2'' ''second question'' COMPLEX_QUERY 1 ''en'']" reading_1]
    resolve_query_pending[of mixed_state "''ESC_20240105093100''" reading_3 "''done''" 1
      "[Escalate reading_1 ''cust_1'' ''where is my order'' COMPLEX_QUERY 1 ''en'',
        Tick working_notify reading_1,
        Escalate reading_3 ''cust_2'' ''second question'' COMPLEX_QUERY 1 ''en'']" reading_1]
  have "resolve_query reading_3 ''ESC_19990101000000'' ''done'' mixed_state = (False, mixed_state)"
    and "fst (resolve_query reading_3 ''ESC_20240105093100'' ''done'' mixed_state) = True"
    and "q_status (escalated_queries
        (snd (resolve_query reading_3 ''ESC_20240105093100'' ''done'' mixed_state)) ! 1)
       = ''resolved''"
    and "agents (snd (resolve_query reading_3 ''ESC_20240105093100'' ''done'' mixed_state))
       = agents mixed_state"
    by blast+
  then show ?thesis using lds by simp
qed

section \<open>Query identifiers\<close>

lemmas eval_defs =
  assign_pending_queries_def pending_queries_def assign_one_def assign_query_to_agent_def
  find_best_agent_def available_agents_def is_available_def agent_score_def language_match_def
  escalate_query_def resolve_query_def release_agent_def init_state_def initialize_agents_def
  working_notify_def failing_notify_def Let_def upt_rec

lemma assigned_state_eval:
  "map current_chats (agents assigned_state) = [0, 0, 1, 0]
   \<and> map a_id (agents assigned_state) = [''agent_1'', ''agent_2'', ''agent_3'', ''agent_4'']
   \<and> map q_id (escalated_queries assigned_state) = [''ESC_20240105093007'']
   \<and> map q_status (escalated_queries assigned_state) = [''assigned'']
   \<and> map agent_id (escalated_queries assigned_state) = [''agent_3'']"
  unfolding assigned_state_def tick_pending_state
  by (simp add: assign_query_to_agent_def working_notify_def pending_state_queries
      pending_state_agents initialize_agents_def Let_def)

lemma colliding_state_eval:
  "map q_id (escalated_queries colliding_state) = [''ESC_20240105093007'', ''ESC_20240105093007'']
   \<and> map customer_id (escalated_queries colliding_state) = [''cust_1'', ''cust_2'']
   \<and> map q_status (escalated_queries colliding_state) = [''pending'', ''pending'']"
  by (simp add: colliding_state_def escalate_query_def Let_def pending_state_queries
      strftime_reading_2)

text \<open>
  C9. Two calls of \<^verbatim>\<open>escalate_query\<close> whose clock readings fall within the same
  second (09:30:07.000000 and 09:30:07.250000) return the same identifier, for two
  different customers, and both records are stored under it. A later
  \<^verbatim>\<open>resolve_query\<close> with that identifier, meant for the second query, resolves the
  first one and leaves the second one pending.
\<close>

theorem query_id_collision:
  "query_id (fst (escalate_query reading_1 ''cust_1'' ''where is my order'' COMPLEX_QUERY 1 ''en''
                    (init_state reading_1)))
     = Some ''ESC_20240105093007''
   \<and> query_id (fst (escalate_query reading_2 ''cust_2'' ''second question'' COMPLEX_QUERY 1 ''en''
                    pending_state))
     = Some ''ESC_20240105093007''
   \<and> map customer_id (escalated_queries colliding_state) = [''cust_1'', ''cust_2'']
   \<and> map q_id (escalated_queries colliding_state)
       = [''ESC_20240105093007'', ''ESC_20240105093007'']
   \<and> map q_status (escalated_queries
         (snd (resolve_query reading_3 ''ESC_20240105093007'' ''answer for cust_2''
                 colliding_state)))
       = [''resolved'', ''pending'']"
  using colliding_state_eval
  by (simp add: escalate_query_def Let_def strftime_reading_1 strftime_reading_2
      resolve_query_def colliding_state_def pending_state_queries)

section \<open>Enqueue, assign, resolve\<close>

lemma assign_state:
  "snd (assign_query_to_agent notify now qi ai st) =
     st\<lparr>agents := (agents st)[ai := (agents st ! ai)\<lparr>current_chats := current_chats (agents st ! ai) + 1,
                          last_activity := isoformat now\<rparr>],
        escalated_queries := (escalated_queries st)[qi := (escalated_queries st ! qi)
           \<lparr>agent_id := a_id (agents st ! ai), q_status := ''assigned'',
            assigned_time := isoformat now\<rparr>]\<rparr>"
  by (simp add: assign_query_to_agent_def Let_def)

lemma length_queries_assign_one:
  "length (escalated_queries (assign_one notify now qi st)) = length (escalated_queries st)"
  by (simp add: assign_one_def assign_state split: option.splits)

lemma length_queries_fold_assign:
  "length (escalated_queries (fold (assign_one notify now) qis st)) = length (escalated_queries st)"
  by (induction qis arbitrary: st) (simp_all add: length_queries_assign_one)

lemma query_ids_assign_one:
  "map q_id (escalated_queries (assign_one notify now qi st)) = map q_id (escalated_queries st)"
proof (cases "qi < length (escalated_queries st)")
  case True
  then show ?thesis
    by (simp add: assign_one_def assign_state map_update list_update_same_conv split: option.splits)
next
  case False
  then have "length (escalated_queries st) \<le> qi" by simp
  then have "\<And>q'. (escalated_queries st)[qi := q'] = escalated_queries st"
    by (rule list_update_beyond)
  then show ?thesis
    by (simp add: assign_one_def assign_state split: option.splits)
qed

lemma query_ids_fold_assign:
  "map q_id (escalated_queries (fold (assign_one notify now) qis st)) = map q_id (escalated_queries st)"
  by (induction qis arbitrary: st) (simp_all add: query_ids_assign_one)

lemma assign_one_append:
  assumes "qi < length (escalated_queries st)"
  shows "assign_one notify now qi (st\<lparr>escalated_queries := escalated_queries st @ [q]\<rparr>)
     = (assign_one notify now qi st)
         \<lparr>escalated_queries := escalated_queries (assign_one notify now qi st) @ [q]\<rparr>"
  using assms
  by (simp add: assign_one_def assign_state nth_append list_update_append1 split: option.splits)

lemma fold_assign_append:
  "\<forall>qi\<in>set qis. qi < length (escalated_queries st) \<Longrightarrow>
   fold (assign_one notify now) qis (st\<lparr>escalated_queries := escalated_queries st @ [q]\<rparr>)
     = (fold (assign_one notify now) qis st)
         \<lparr>escalated_queries := escalated_queries (fold (assign_one notify now) qis st) @ [q]\<rparr>"
proof (induction qis arbitrary: st)
  case Nil
  then show ?case by simp
next
  case (Cons qi qis)
  then have lt: "qi < length (escalated_queries st)" by simp
  have "\<forall>x\<in>set qis. x < length (escalated_queries (assign_one notify now qi st))"
    using Cons.prems by (simp add: length_queries_assign_one)
  from Cons.IH[OF this] show ?case
    by (simp add: assign_one_append[OF lt])
qed

lemma pending_queries_append:
  assumes "q_status q = ''pending''"
  shows "pending_queries (st\<lparr>escalated_queries := escalated_queries st @ [q]\<rparr>)
     = pending_queries st @ [length (escalated_queries st)]"
proof -
  have "filter (\<lambda>i. q_status ((escalated_queries st @ [q]) ! i) = ''pending'')
          [0..<length (escalated_queries st)]
        = filter (\<lambda>i. q_status (escalated_queries st ! i) = ''pending'')
          [0..<length (escalated_queries st)]"
    by (rule filter_cong) (auto simp: nth_append)
  then show ?thesis using assms by (simp add: pending_queries_def)
qed

lemma pending_queries_bound: "\<forall>qi\<in>set (pending_queries st). qi < length (escalated_queries st)"
  by (simp add: pending_queries_def)

lemma tick_append:
  assumes "q_status q = ''pending''"
  shows "assign_pending_queries notify now (st\<lparr>escalated_queries := escalated_queries st @ [q]\<rparr>)
     = assign_one notify now (length (escalated_queries st))
         ((assign_pending_queries notify now st)
            \<lparr>escalated_queries := escalated_queries (assign_pending_queries notify now st) @ [q]\<rparr>)"
  by (simp add: assign_pending_queries_def pending_queries_append[OF assms]
      fold_assign_append[OF pending_queries_bound])

lemma load_invariant_tick:
  "load_invariant st \<Longrightarrow> load_invariant (assign_pending_queries notify now st)"
  by (simp add: assign_pending_queries_def load_invariant_fold_assign)

lemma round_trip_general:
  assumes dist: "distinct (map a_id (agents s))"
    and inv: "load_invariant s"
    and s1: "s1 = snd (escalate_query now1 cust qtext rsn prio lang s)"
    and qid: "qid = ''ESC_'' @ strftime_YmdHMS now1"
    and fresh: "\<forall>q\<in>set (escalated_queries s). q_id q \<noteq> qid"
    and s2: "s2 = assign_pending_queries notify now2 s1"
    and assigned: "q_status (escalated_queries s2 ! length (escalated_queries s)) = ''assigned''"
    and s3: "s3 = snd (resolve_query now3 qid resp s2)"
    and base: "base = assign_pending_queries notify now2 s"
  shows "fst (resolve_query now3 qid resp s2) = True
     \<and> q_status (escalated_queries s3 ! length (escalated_queries s)) = ''resolved''
     \<and> (\<exists>ai<length (agents s).
            map current_chats (agents s2)
              = (map current_chats (agents base))[ai := current_chats (agents base ! ai) + 1])
     \<and> map current_chats (agents s3) = map current_chats (agents base)"
proof -
  define newq where "newq =
    \<lparr>q_id = qid, customer_id = cust, query = qtext,
     complexity = (if prio \<ge> 4 then CRITICAL else COMPLEX),
     reason = rsn, agent_id = [], q_status = ''pending'',
     created_time = isoformat now1, assigned_time = [], resolved_time = [],
     priority = prio, q_notes = [], language = None\<rparr>"
  define n where "n = length (escalated_queries s)"
  define bq where "bq = base\<lparr>escalated_queries := escalated_queries base @ [newq]\<rparr>"
  have s1': "s1 = s\<lparr>escalated_queries := escalated_queries s @ [newq]\<rparr>"
    by (simp add: s1 escalate_query_def Let_def newq_def qid)
  have pend: "q_status newq = ''pending''" by (simp add: newq_def)
  have s2': "s2 = assign_one notify now2 n bq"
    unfolding s2 s1' bq_def base n_def by (rule tick_append[OF pend])
  have len_base: "length (escalated_queries base) = n"
    by (simp add: base assign_pending_queries_def length_queries_fold_assign n_def)
  have ids_base: "map q_id (escalated_queries base) = map q_id (escalated_queries s)"
    by (simp add: base assign_pending_queries_def query_ids_fold_assign)
  have aids_base: "map a_id (agents base) = map a_id (agents s)"
    by (simp add: base assign_pending_queries_def agent_ids_fold_assign)
  have inv_base: "load_invariant base"
    unfolding base using inv by (rule load_invariant_tick)
  have bq_n: "escalated_queries bq ! n = newq"
    by (simp add: bq_def len_base[symmetric])
  have bq_agents: "agents bq = agents base" by (simp add: bq_def)
  obtain ai where fb: "find_best_agent (agents bq) (escalated_queries bq ! n) = Some ai"
  proof (cases "find_best_agent (agents bq) (escalated_queries bq ! n)")
    case None
    then have "s2 = bq" by (simp add: s2' assign_one_def)
    then have "q_status (escalated_queries s2 ! n) = ''pending''"
      using bq_n pend by simp
    with assigned show ?thesis by (simp add: n_def)
  next
    case (Some ai)
    then show ?thesis using that by blast
  qed
  from find_best_agent_Some[OF fb] have lt: "ai < length (agents base)"
    by (simp add: bq_agents)
  have lt_s: "ai < length (agents s)"
    using lt aids_base by (metis length_map)
  define newq' where "newq' = newq\<lparr>agent_id := a_id (agents base ! ai),
      q_status := ''assigned'', assigned_time := isoformat now2\<rparr>"
  define ag' where "ag' = (agents base ! ai)\<lparr>current_chats := current_chats (agents base ! ai) + 1,
      last_activity := isoformat now2\<rparr>"
  have s2_agents: "agents s2 = (agents base)[ai := ag']"
    using fb by (simp add: s2' assign_one_def assign_state bq_def ag'_def)
  have s2_queries: "escalated_queries s2 = escalated_queries base @ [newq']"
    using fb bq_n
    by (simp add: s2' assign_one_def assign_state bq_def newq'_def len_base[symmetric])
  have fresh_base: "\<forall>q\<in>set (escalated_queries base). q_id q \<noteq> qid"
  proof
    fix q assume "q \<in> set (escalated_queries base)"
    then have "q_id q \<in> set (map q_id (escalated_queries base))" by simp
    then have "q_id q \<in> set (map q_id (escalated_queries s))" by (simp only: ids_base)
    then show "q_id q \<noteq> qid" using fresh by auto
  qed
  have "q_id newq' = qid" by (simp add: newq'_def newq_def)
  with fresh_base
  have fi: "first_index (\<lambda>q. q_id q = qid) (escalated_queries s2) = Some n"
    unfolding s2_queries len_base[symmetric] by (intro first_index_fresh) auto
  have "map a_id (agents s2) = map a_id (agents base)"
    using lt by (simp add: s2_agents map_update ag'_def list_update_same_conv)
  then have dist2: "distinct (map a_id (agents s2))"
    using dist aids_base by simp
  have lt2: "ai < length (agents s2)" using lt by (simp add: s2_agents)
  have s2_ai: "agents s2 ! ai = ag'" using lt by (simp add: s2_agents)
  have "a_id (agents s2 ! ai) = a_id (agents base ! ai)" by (simp add: s2_ai ag'_def)
  with first_index_distinct[OF dist2 lt2]
  have fa: "first_index (\<lambda>agent. a_id agent = a_id (agents base ! ai)) (agents s2) = Some ai"
    by simp
  have nonneg: "0 \<le> current_chats (agents base ! ai)"
    using load_invariant_nth[OF inv_base lt] by simp
  have s3_queries: "escalated_queries s3
      = (escalated_queries s2)[n := newq'\<lparr>q_status := ''resolved'', resolved_time := isoformat now3\<rparr>]"
    using fi by (simp add: s3 resolve_query_def Let_def s2_queries len_base[symmetric])
  have s3_agents: "agents s3 = (agents base)[ai := ag'\<lparr>current_chats := current_chats (agents base ! ai)\<rparr>]"
    using fi fa nonneg
    by (simp add: s3 resolve_query_def Let_def s2_queries len_base[symmetric] newq'_def
        release_agent_def s2_ai) (simp add: s2_agents ag'_def)
  have r1: "fst (resolve_query now3 qid resp s2) = True"
    using fi by (simp add: resolve_query_def Let_def)
  have r2: "q_status (escalated_queries s3 ! length (escalated_queries s)) = ''resolved''"
    by (simp add: s3_queries s2_queries n_def[symmetric] len_base[symmetric])
  have r3: "map current_chats (agents s2)
              = (map current_chats (agents base))[ai := current_chats (agents base ! ai) + 1]"
    by (simp add: s2_agents map_update ag'_def)
  have r4: "map current_chats (agents s3) = map current_chats (agents base)"
    using lt by (simp add: s3_agents map_update ag'_def list_update_same_conv)
  from r1 r2 r3 r4 lt_s show ?thesis by blast
qed

lemma initial_agent_ids_distinct: "distinct (map a_id (agents (init_state now)))"
  by (simp add: init_state_def initialize_agents_def)

lemma round_trip_state_eval:
  "map q_id (escalated_queries round_trip_state) = [''ESC_20240105093007'', ''ESC_20240105093007'']
   \<and> map q_status (escalated_queries round_trip_state) = [''assigned'', ''assigned'']
   \<and> map agent_id (escalated_queries round_trip_state) = [''agent_3'', ''agent_1'']
   \<and> map a_id (agents round_trip_state) = [''agent_1'', ''agent_2'', ''agent_3'', ''agent_4'']
   \<and> map current_chats (agents round_trip_state) = [1, 0, 1, 0]"
  unfolding round_trip_state_def assigned_state_def tick_pending_state
  by (simp add: eval_defs pending_state_queries pending_state_agents strftime_reading_2)

text \<open>
  C6. The round trip breaks when the identifier of the new query is already in use,
  which the identifiers of \<^verbatim>\<open>escalate_query\<close> allow (see C9). On the state reached
  by one call of \<^verbatim>\<open>escalate_query\<close> and one pass of the assignment loop, a second
  query enqueued within the same second gets the identifier of the first; the pass
  assigns it (to agent 1, whose load goes from 0 to 1); resolving the returned identifier
  then resolves the first query, so the new query stays assigned, the load of its agent
  stays at 1, and the load of another agent (agent 3) changes from 1 to 0.
\<close>

theorem round_trip_id_collision:
  "query_id (fst (escalate_query reading_2 ''cust_2'' ''second question'' COMPLEX_QUERY 1 ''en''
                    assigned_state))
     = Some ''ESC_20240105093007''
   \<and> map current_chats (agents assigned_state) = [0, 0, 1, 0]
   \<and> map q_status (escalated_queries round_trip_state) = [''assigned'', ''assigned'']
   \<and> map current_chats (agents round_trip_state) = [1, 0, 1, 0]
   \<and> map q_status (escalated_queries
         (snd (resolve_query reading_3 ''ESC_20240105093007'' ''answer for cust_2''
                 round_trip_state)))
       = [''resolved'', ''assigned'']
   \<and> map current_chats (agents
         (snd (resolve_query reading_3 ''ESC_20240105093007'' ''answer for cust_2''
                 round_trip_state)))
       = [1, 0, 0, 0]"
proof -
  have a: "query_id (fst (escalate_query reading_2 ''cust_2'' ''second question'' COMPLEX_QUERY 1
      ''en'' assigned_state)) = Some ''ESC_20240105093007''"
    by (simp add: escalate_query_def Let_def strftime_reading_2)
  have b: "map q_status (escalated_queries
         (snd (resolve_query reading_3 ''ESC_20240105093007'' ''answer for cust_2''
                 round_trip_state)))
       = [''resolved'', ''assigned'']
   \<and> map current_chats (agents
         (snd (resolve_query reading_3 ''ESC_20240105093007'' ''answer for cust_2''
                 round_trip_state)))
       = [1, 0, 0, 0]"
    unfolding round_trip_state_def assigned_state_def tick_pending_state
    by (simp add: eval_defs pending_state_queries pending_state_agents strftime_reading_2)
  from a b assigned_state_eval round_trip_state_eval show ?thesis by simp
qed

text \<open>
  With an identifier that no stored query carries yet, the round trip holds in every
  state of a run from the initial roster: enqueue one query, let one pass of the
  assignment loop assign it, and resolve it by its identifier. Then the resolution
  succeeds and the query is resolved. The pass assigns the older pending queries first,
  exactly as it would without the new query (\<open>base\<close> is the state after that); the
  assignment of the new query then adds one to the load of exactly one agent and changes
  no other load, and after the resolution every load is back at its value in \<open>base\<close>,
  that is at its value just before the assignment of the new query. When the state has
  no other pending query, \<open>base\<close> is the state itself.
\<close>

lemma round_trip_fresh_id:
  assumes "s = run ops (init_state now0)"
    and "s1 = snd (escalate_query now1 cust qtext rsn prio lang s)"
    and "qid = ''ESC_'' @ strftime_YmdHMS now1"
    and "\<forall>q\<in>set (escalated_queries s). q_id q \<noteq> qid"
    and "s2 = assign_pending_queries notify now2 s1"
    and "q_status (escalated_queries s2 ! length (escalated_queries s)) = ''assigned''"
    and "s3 = snd (resolve_query now3 qid resp s2)"
    and "base = assign_pending_queries notify now2 s"
  shows "query_id (fst (escalate_query now1 cust qtext rsn prio lang s)) = Some qid
     \<and> fst (resolve_query now3 qid resp s2) = True
     \<and> q_status (escalated_queries s3 ! length (escalated_queries s)) = ''resolved''
     \<and> (\<exists>ai<length (agents s).
            map current_chats (agents s2)
              = (map current_chats (agents base))[ai := current_chats (agents base ! ai) + 1])
     \<and> map current_chats (agents s3) = map current_chats (agents base)
     \<and> (pending_queries s = [] \<longrightarrow> base = s)"
proof -
  have dist: "distinct (map a_id (agents s))"
    using assms(1) by (simp add: agent_ids_run initial_agent_ids_distinct)
  have inv: "load_invariant s"
    using assms(1) by (simp add: load_invariant_run load_invariant_init)
  have a: "query_id (fst (escalate_query now1 cust qtext rsn prio lang s)) = Some qid"
    using assms(3) by (simp add: escalate_query_def Let_def)
  have b: "pending_queries s = [] \<longrightarrow> base = s"
    using assms(8) by (simp add: assign_pending_queries_def)
  from round_trip_general[OF dist inv assms(2-8)] a b show ?thesis by blast
qed

lemma round_trip_fresh_id_example:
  "fst (resolve_query reading_3 ''ESC_20240105093007'' ''done'' assigned_state) = True
   \<and> q_status (escalated_queries
        (snd (resolve_query reading_3 ''ESC_20240105093007'' ''done'' assigned_state)) ! 0)
       = ''resolved''
   \<and> map current_chats
        (agents (snd (resolve_query reading_3 ''ESC_20240105093007'' ''done'' assigned_state)))
       = [0, 0, 0, 0]"
proof -
  have h1: "init_state reading_1 = run [] (init_state reading_1)" by (simp add: run_def)
  have h2: "pending_state = snd (escalate_query reading_1 ''cust_1'' ''where is my order''
      COMPLEX_QUERY 1 ''en'' (init_state reading_1))" by (simp add: pending_state_def)
  have h3: "''ESC_20240105093007'' = ''ESC_'' @ strftime_YmdHMS reading_1"
    by (simp add: strftime_reading_1)
  have h4: "\<forall>q\<in>set (escalated_queries (init_state reading_1)). q_id q \<noteq> ''ESC_20240105093007''"
    by (simp add: init_state_def)
  have h5: "assigned_state = assign_pending_queries working_notify reading_1 pending_state"
    by (simp add: assigned_state_def)
  have h6: "q_status (escalated_queries assigned_state ! length (escalated_queries (init_state reading_1)))
      = ''assigned''"
    unfolding assigned_state_def tick_pending_state
    by (simp add: assign_query_to_agent_def working_notify_def pending_state_queries
        init_state_def Let_def)
  have h7: "snd (resolve_query reading_3 ''ESC_20240105093007'' ''done'' assigned_state)
      = snd (resolve_query reading_3 ''ESC_20240105093007'' ''done'' assigned_state)" by simp
  have h8: "init_state reading_1
      = assign_pending_queries working_notify reading_1 (init_state reading_1)"
    by (simp add: assign_pending_queries_def pending_queries_def init_state_def)
  have "map current_chats (agents (init_state reading_1)) = [0, 0, 0, 0]"
    by (simp add: init_state_def initialize_agents_def)
  with round_trip_fresh_id[OF h1 h2 h3 h4 h5 h6 h7 h8] show ?thesis
    by (simp add: init_state_def)
qed

section \<open>The wait time estimate\<close>

lemma escalations_effect:
  "agents (fold step (map (\<lambda>t. Escalate (f t) cust qtext rsn prio lang) ts) st) = agents st
   \<and> length (filter (\<lambda>q. q_status q = ''pending'')
        (escalated_queries (fold step (map (\<lambda>t. Escalate (f t) cust qtext rsn prio lang) ts) st)))
     = length (filter (\<lambda>q. q_status q = ''pending'') (escalated_queries st)) + length ts"
  by (induction ts arbitrary: st) (simp_all add: escalate_query_def Let_def)

lemma busy_queue_counts:
  "length (filter is_available (agents busy_queue_state)) = 3
   \<and> length (filter (\<lambda>q. q_status q = ''pending'') (escalated_queries busy_queue_state)) = 49"
  unfolding busy_queue_state_def run_def
  by (simp add: escalations_effect update_agent_status_def init_state_def initialize_agents_def
      is_available_def del: upt.simps)

lemma bit_length_49: "bit_length 49 = 6" by (simp add: bit_length.simps)
lemma bit_length_3: "bit_length 3 = 2" by (simp add: bit_length.simps)
lemma bit_length_4: "bit_length 4 = 3" by (simp add: bit_length.simps)
lemma bit_length_1: "bit_length (Suc 0) = 1" by (simp add: bit_length.simps)

lemma int_truediv_total: "a \<noteq> 0 \<Longrightarrow> int_truediv p a \<noteq> None"
  by (simp add: int_truediv_def Let_def split_beta)

lemma truediv_49_3: "int_truediv 49 3 = Some (4597424619607381, - 48)"
  by (simp add: int_truediv_def scaled_fraction_def rne_div_def bit_length_49 bit_length_3 Let_def)

lemma truediv_1_4: "int_truediv 1 4 = Some (4503599627370496, - 54)"
  by (simp add: int_truediv_def scaled_fraction_def rne_div_def bit_length_1 bit_length_4 Let_def)

lemma float_of_nat_10: "float_of_nat 10 = (10, 0)"
  by (simp add: float_of_nat_def round53_def bit_length.simps)

lemma wait_49_3:
  "float_mul (4597424619607381, - 48) (10, 0) = (5746780774509226, - 45)
   \<and> float_mul (5746780774509226, - 45) float_1_5 = (8620171161763839, - 45)
   \<and> py_int (5746780774509226, - 45) = 163 \<and> py_int (8620171161763839, - 45) = 244"
  by (simp add: float_mul_def float_1_5_def round53_def rne_div_def bit_length.simps py_int_def
      Let_def)

lemma wait_1_4:
  "py_int (float_mul (4503599627370496, - 54) (10, 0)) = 2
   \<and> py_int (float_mul (float_mul (4503599627370496, - 54) (10, 0)) float_1_5) = 3"
  by (simp add: float_mul_def float_1_5_def round53_def rne_div_def bit_length.simps py_int_def
      Let_def)

lemma str_nat_small:
  "str_nat 163 = ''163'' \<and> str_nat 244 = ''244'' \<and> str_nat 245 = ''245''
   \<and> str_nat 2 = ''2'' \<and> str_nat 3 = ''3''"
  by (simp add: str_nat.simps digit_def)

lemma offline_state_counts: "length (filter is_available (agents offline_state)) = 0"
  by (simp add: offline_state_def run_def update_agent_status_def init_state_def
      initialize_agents_def is_available_def)

lemma init_state_counts:
  "length (filter is_available (agents (init_state reading_1))) = 4
   \<and> length (filter (\<lambda>q. q_status q = ''pending'') (escalated_queries (init_state reading_1))) = 0"
  by (simp add: init_state_def initialize_agents_def is_available_def)

lemma pending_state_counts:
  "length (filter is_available (agents pending_state)) = 4
   \<and> length (filter (\<lambda>q. q_status q = ''pending'') (escalated_queries pending_state)) = 1"
  by (simp add: pending_state_queries pending_state_agents initialize_agents_def is_available_def)

subsection \<open>Where the double-precision computation is exact\<close>

text \<open>
  A double \<open>(m, e)\<close> has the value \<open>m * 2 ^ e\<close>. Rounding to 53 bits changes nothing
  when the mantissa is a number below \<open>2 ^ 53\<close> times a power of two, truncation is the
  floor of the value, and the quotient of two integers is exact when it is such a
  number over a power of two.
\<close>

lemma bit_length_bounds: "0 < n \<Longrightarrow> 2 ^ (bit_length n - 1) \<le> n \<and> n < 2 ^ bit_length n"
proof (induction n rule: bit_length.induct)
  case (1 n)
  show ?case
  proof (cases "n div 2 = 0")
    case True
    with "1.prems" have "n = 1" by auto
    then show ?thesis by (simp add: bit_length.simps)
  next
    case False
    then have pos: "0 < n div 2" by simp
    from "1.IH"[OF _ pos] "1.prems"
    have ih: "2 ^ (bit_length (n div 2) - 1) \<le> n div 2" "n div 2 < 2 ^ bit_length (n div 2)"
      by auto
    have bl: "bit_length n = Suc (bit_length (n div 2))"
      using "1.prems" by (subst bit_length.simps) simp
    have blpos: "0 < bit_length (n div 2)"
      using pos by (subst bit_length.simps) simp
    then have "(2::nat) ^ bit_length (n div 2) = 2 * 2 ^ (bit_length (n div 2) - 1)"
      by (cases "bit_length (n div 2)") simp_all
    with ih(1) have lo: "2 ^ bit_length (n div 2) \<le> n" by simp
    from ih(2) have hi: "n < 2 * 2 ^ bit_length (n div 2)" by simp
    from lo hi bl show ?thesis by simp
  qed
qed

lemma float_value_scale: "float_value (m * 2 ^ s, e) = float_value (m, e + int s)"
  by (simp add: float_value_def power_int_add)

lemma py_int_floor: "py_int x = nat \<lfloor>float_value x\<rfloor>"
proof (cases "snd x \<ge> 0")
  case True
  then obtain k where k: "snd x = int k" using nonneg_int_cases by blast
  have "float_value x = real (fst x * 2 ^ k)" by (simp add: float_value_def k)
  then show ?thesis using True k by (simp add: py_int_def del: of_nat_mult of_nat_power)
next
  case False
  then obtain k where k: "snd x = - int k" by (metis int_cases2 linorder_not_le nle_le neg_le_0_iff_le of_nat_0_le_iff)
  have "float_value x = real (fst x) / real (2 ^ k)"
    by (simp add: float_value_def k power_int_minus field_simps)
  then have "\<lfloor>float_value x\<rfloor> = int (fst x div 2 ^ k)"
    by (simp only: floor_divide_of_nat_eq)
  then show ?thesis using False k by (simp add: py_int_def)
qed

lemma rne_div_exact: "0 < d \<Longrightarrow> rne_div (q * d) d = q"
  by (simp add: rne_div_def Let_def)

lemma round53_exact:
  assumes "m = c * 2 ^ t" "c < 2 ^ 53"
  shows "float_value (round53 (m, e)) = float_value (m, e)"
proof (cases "bit_length m \<le> 53")
  case True
  then show ?thesis by (simp add: round53_def)
next
  case False
  define s where "s = bit_length m - 53"
  have bl: "bit_length m = 53 + s" using False by (simp add: s_def)
  have "0 < m" using False by (cases "m = 0") (simp_all add: bit_length.simps)
  from bit_length_bounds[OF this] have "2 ^ (52 + s) \<le> m" by (simp add: bl)
  also have "m < 2 ^ 53 * 2 ^ t" using assms by simp
  finally have "(2::nat) ^ (52 + s) < 2 ^ (53 + t)" by (simp add: power_add)
  then have "52 + s < 53 + t" by (rule power_less_imp_less_exp[rotated]) simp
  then have "s \<le> t" by simp
  then have m: "m = (c * 2 ^ (t - s)) * 2 ^ s"
    using assms(1) by (simp add: power_add[symmetric])
  have "rne_div m (2 ^ s) = c * 2 ^ (t - s)"
    by (subst m) (rule rne_div_exact, simp)
  then have "round53 (m, e) = (c * 2 ^ (t - s), e + int s)"
    using False by (simp add: round53_def Let_def s_def)
  then show ?thesis
    by (subst m) (simp only: float_value_scale)
qed

lemma mantissa_form:
  assumes "float_value (m, e) = real C / 2 ^ J" "C < 2 ^ 53"
  shows "\<exists>c t. m = c * 2 ^ t \<and> c < 2 ^ 53"
proof -
  have "real m * 2 powi e * 2 ^ J = real C" using assms(1) by (simp add: float_value_def)
  then have eq: "real m * 2 powi (e + int J) = real C"
    by (simp add: power_int_add mult.assoc)
  show ?thesis
  proof (cases "e + int J \<ge> 0")
    case True
    then obtain k where k: "e + int J = int k" using nonneg_int_cases by blast
    from eq have "real (m * 2 ^ k) = real C" by (simp add: k)
    then have "m * 2 ^ k = C" by (simp only: of_nat_eq_iff)
    then have "m \<le> C" by (cases "m = 0") auto
    then have "m = m * 2 ^ 0 \<and> m < 2 ^ 53" using assms(2) by simp
    then show ?thesis by blast
  next
    case False
    then obtain k where k: "e + int J = - int k"
      by (metis int_cases2 linorder_not_le nle_le neg_le_0_iff_le of_nat_0_le_iff)
    from eq have "real m = real (C * 2 ^ k)"
      by (simp add: k power_int_minus field_simps)
    then have "m = C * 2 ^ k" by (simp only: of_nat_eq_iff)
    then show ?thesis using assms(2) by blast
  qed
qed

lemma float_value_mul:
  "float_value (fst x * fst y, snd x + snd y) = float_value x * float_value y"
  by (simp add: float_value_def power_int_add)

lemma float_mul_exact:
  assumes "float_value x * float_value y = real C / 2 ^ J" "C < 2 ^ 53"
  shows "float_value (float_mul x y) = float_value x * float_value y"
proof -
  have v: "float_value (fst x * fst y, snd x + snd y) = real C / 2 ^ J"
    using assms(1) by (simp only: float_value_mul)
  from mantissa_form[OF v assms(2)] obtain c t where "fst x * fst y = c * 2 ^ t" "c < 2 ^ 53"
    by blast
  from round53_exact[OF this] show ?thesis
    by (simp add: float_mul_def float_value_mul)
qed

lemma scaled_fraction_value:
  assumes "0 < a" "scaled_fraction p a k = (n, d)"
  shows "0 < d \<and> real n / real d = real p / real a * 2 powi k"
proof (cases "k \<ge> 0")
  case True
  then obtain j where j: "k = int j" using nonneg_int_cases by blast
  with assms have "d = a" "n = p * 2 ^ j" by (simp_all add: scaled_fraction_def)
  then show ?thesis using assms(1) j by simp
next
  case False
  then obtain j where j: "k = - int j"
    by (metis int_cases2 linorder_not_le nle_le neg_le_0_iff_le of_nat_0_le_iff)
  with assms False show ?thesis
    by (auto simp: scaled_fraction_def power_int_minus field_simps)
qed

lemma powi_cancel: "(2::real) powi A / 2 powi B * 2 powi (52 - A + B) = 2 ^ 52"
proof -
  have "(2::real) powi (52 - A + B) = 2 powi 52 / 2 powi A * 2 powi B"
    by (simp add: power_int_add power_int_diff)
  then show ?thesis by simp
qed

lemma quotient_scaled_lower:
  assumes "0 < a" "0 < p"
  shows "2 ^ 52 < real p / real a * 2 powi (53 + int (bit_length a) - int (bit_length p))"
proof -
  from bit_length_bounds[OF assms(2)] have lo: "2 ^ (bit_length p - 1) \<le> p" by simp
  from bit_length_bounds[OF assms(1)] have hi: "a < 2 ^ bit_length a" by simp
  have bp: "0 < bit_length p" using assms(2) by (subst bit_length.simps) simp
  have "real (2 ^ (bit_length p - 1)) \<le> real p" using lo by (simp only: of_nat_le_iff)
  then have lo': "2 powi (int (bit_length p) - 1) \<le> real p"
    using bp by (simp add: power_int_def nat_diff_distrib')
  have "real a < real (2 ^ bit_length a)" using hi by (simp only: of_nat_less_iff)
  then have hi': "real a < 2 powi int (bit_length a)" by simp
  have apos: "0 < real a" using assms(1) by simp
  have "2 powi (int (bit_length p) - 1) / 2 powi int (bit_length a) < real p / real a"
  proof -
    have "2 powi (int (bit_length p) - 1) / 2 powi int (bit_length a)
        \<le> real p / 2 powi int (bit_length a)"
      using lo' by (simp add: divide_right_mono)
    also have "\<dots> < real p / real a"
      using hi' apos assms(2) by (simp add: divide_strict_left_mono)
    finally show ?thesis .
  qed
  then have "2 powi (int (bit_length p) - 1) / 2 powi int (bit_length a)
        * 2 powi (53 + int (bit_length a) - int (bit_length p))
      < real p / real a * 2 powi (53 + int (bit_length a) - int (bit_length p))"
    by (rule mult_strict_right_mono) simp
  moreover have "2 powi (int (bit_length p) - 1) / 2 powi int (bit_length a)
        * 2 powi (53 + int (bit_length a) - int (bit_length p)) = (2::real) ^ 52"
  proof -
    have "53 + int (bit_length a) - int (bit_length p)
        = 52 - (int (bit_length p) - 1) + int (bit_length a)" by simp
    then show ?thesis by (simp only: powi_cancel)
  qed
  ultimately show ?thesis by simp
qed

lemma int_truediv_exact:
  assumes "0 < a" "0 < p" "p * 2 ^ j = c * a" "c < 2 ^ 53"
  shows "\<exists>r. int_truediv p a = Some r \<and> float_value r = real p / real a"
proof -
  define k0 where "k0 = 53 + int (bit_length a) - int (bit_length p)"
  obtain n0 d0 where sf0: "scaled_fraction p a k0 = (n0, d0)"
    by (cases "scaled_fraction p a k0") blast
  define K where "K = (if n0 \<ge> d0 * 2 ^ 53 then k0 - 1 else k0)"
  obtain n d where sf: "scaled_fraction p a K = (n, d)"
    by (cases "scaled_fraction p a K") blast
  have res: "int_truediv p a = Some (rne_div n d, - K)"
  proof (cases "n0 \<ge> d0 * 2 ^ 53")
    case True
    then have K: "K = k0 - 1" by (simp add: K_def)
    show ?thesis
      using assms(1,2) sf0 sf True unfolding K
      by (simp add: int_truediv_def Let_def k0_def[symmetric])
  next
    case False
    then have K: "K = k0" by (simp add: K_def)
    show ?thesis
      using assms(1,2) sf0 sf False unfolding K
      by (simp add: int_truediv_def Let_def k0_def[symmetric])
  qed
  have q0: "2 ^ 52 < real p / real a * 2 powi k0"
    unfolding k0_def by (rule quotient_scaled_lower[OF assms(1,2)])
  from scaled_fraction_value[OF assms(1) sf0]
  have d0: "0 < d0" and v0: "real n0 / real d0 = real p / real a * 2 powi k0" by blast+
  have q: "2 ^ 52 \<le> real p / real a * 2 powi K"
  proof (cases "n0 \<ge> d0 * 2 ^ 53")
    case True
    then have "real (d0 * 2 ^ 53) \<le> real n0" by (simp only: of_nat_le_iff)
    then have "2 ^ 53 \<le> real n0 / real d0" using d0 by (simp add: field_simps)
    then have "2 ^ 53 \<le> real p / real a * 2 powi k0" by (simp only: v0)
    moreover have "\<And>x::real. 2 ^ 53 \<le> x \<Longrightarrow> 2 ^ 52 \<le> x / 2" by simp
    ultimately have "2 ^ 52 \<le> real p / real a * 2 powi k0 / 2" by blast
    moreover have "real p / real a * 2 powi (k0 - 1) = real p / real a * 2 powi k0 / 2"
      by (simp add: power_int_diff)
    ultimately have "2 ^ 52 \<le> real p / real a * 2 powi (k0 - 1)" by (simp only:)
    then show ?thesis using True by (simp only: K_def if_True)
  next
    case False
    then show ?thesis using q0 by (simp add: K_def)
  qed
  have ratio: "real p / real a = real c / 2 ^ j"
  proof -
    have "real (p * 2 ^ j) = real (c * a)" by (simp only: assms(3))
    then show ?thesis using assms(1) by (simp add: field_simps)
  qed
  have Kj: "int j \<le> K"
  proof (rule ccontr)
    assume "\<not> int j \<le> K"
    then have "K - int j \<le> - 1" by simp
    then have "(2::real) powi (K - int j) \<le> 2 powi (- 1)"
      by (intro power_int_increasing) simp_all
    then have le: "(2::real) powi (K - int j) \<le> 1 / 2" by (simp add: power_int_minus)
    have "real p / real a * 2 powi K = real c * 2 powi (K - int j)"
      by (simp add: ratio power_int_diff)
    also have "\<dots> \<le> real c * (1 / 2)"
      using le by (intro mult_left_mono) simp_all
    also have "\<dots> < 2 ^ 53 * (1 / 2)"
    proof -
      have "real c < real (2 ^ 53)" using assms(4) by (simp only: of_nat_less_iff)
      then show ?thesis by simp
    qed
    finally show False using q by simp
  qed
  then obtain kk where kk: "K = int kk" "j \<le> kk"
    by (metis nonneg_int_cases of_nat_0_le_iff order_trans of_nat_le_iff)
  from sf kk have nd: "n = p * 2 ^ kk" "d = a" by (simp_all add: scaled_fraction_def)
  have "p * 2 ^ kk = p * 2 ^ j * 2 ^ (kk - j)"
    using kk(2) by (simp add: power_add[symmetric] mult.assoc)
  then have n: "n = (c * 2 ^ (kk - j)) * a"
    by (simp add: nd assms(3) mult_ac)
  have rne: "rne_div n d = c * 2 ^ (kk - j)"
    unfolding n nd(2) by (rule rne_div_exact[OF assms(1)])
  have "float_value (c * 2 ^ (kk - j), - K) = float_value (c, - K + int (kk - j))"
    by (rule float_value_scale)
  also have "- K + int (kk - j) = - int j" using kk by simp
  also have "float_value (c, - int j) = real c / 2 ^ j"
    by (simp add: float_value_def power_int_minus field_simps)
  finally have "float_value (rne_div n d, - K) = real p / real a"
    by (simp add: rne ratio)
  with res show ?thesis by blast
qed

lemma wait_pipeline_exact:
  assumes "0 < a" "0 < p" "p * 2 ^ j = c * a" "15 * c < 2 ^ 53"
  shows "\<exists>ratio. int_truediv p a = Some ratio
     \<and> py_int (float_mul ratio (float_of_nat 10)) = nat \<lfloor>real p / real a * 10\<rfloor>
     \<and> py_int (float_mul (float_mul ratio (float_of_nat 10)) float_1_5)
         = nat \<lfloor>real p / real a * 10 * (3 / 2)\<rfloor>"
proof -
  have c: "c < 2 ^ 53" and c10: "10 * c < 2 ^ 53" using assms(4) by simp_all
  from int_truediv_exact[OF assms(1-3) c] obtain ratio
    where r: "int_truediv p a = Some ratio" and rv: "float_value ratio = real p / real a"
    by blast
  have pa: "real p / real a = real c / 2 ^ j"
  proof -
    have "real (p * 2 ^ j) = real (c * a)" by (simp only: assms(3))
    then show ?thesis using assms(1) by (simp add: field_simps)
  qed
  have ten: "float_value (float_of_nat 10) = 10"
    by (simp add: float_of_nat_10 float_value_def)
  have half: "float_value float_1_5 = 3 / 2"
    by (simp add: float_1_5_def float_value_def power_int_minus)
  define w where "w = float_mul ratio (float_of_nat 10)"
  have "float_value ratio * float_value (float_of_nat 10) = real (10 * c) / 2 ^ j"
    by (simp add: rv ten pa)
  from float_mul_exact[OF this c10]
  have wv: "float_value w = real p / real a * 10" by (simp add: w_def rv ten)
  have "float_value w * float_value float_1_5 = real (15 * c) / 2 ^ j"
    by (simp add: wv half pa)
  from float_mul_exact[OF this assms(4)]
  have uv: "float_value (float_mul w float_1_5) = real p / real a * 10 * (3 / 2)"
    by (simp add: wv half)
  show ?thesis using r wv uv by (simp add: py_int_floor w_def[symmetric])
qed

text \<open>
  C7. The first two cases of the claim hold. The third does not hold as stated: with 3
  available agents and 49 pending queries, \<open>base\<close> is \<open>490 / 3\<close> and
  \<open>base \<times> 1.5\<close> is exactly 245, but the code returns "163-244 minutes". The quotient
  \<open>49 / 3\<close> is rounded to a double, the product with 10 is rounded again, and the
  product with 1.5 comes out just below 245 before it is truncated.
\<close>

theorem estimate_counterexample:
  "length (filter is_available (agents busy_queue_state)) = 3
   \<and> length (filter (\<lambda>q. q_status q = ''pending'') (escalated_queries busy_queue_state)) = 49
   \<and> get_estimated_wait_time busy_queue_state = ''163-244 minutes''
   \<and> estimate_by_formula 3 49 = ''163-245 minutes''"
proof -
  have a: "get_estimated_wait_time busy_queue_state = ''163-244 minutes''"
    by (simp add: get_estimated_wait_time_def busy_queue_counts truediv_49_3 float_of_nat_10
        wait_49_3 str_nat_small Let_def)
  have b: "estimate_by_formula 3 49 = ''163-245 minutes''"
    by (simp add: estimate_by_formula_def str_nat_small Let_def)
  from a b busy_queue_counts show ?thesis by simp
qed

text \<open>
  C7, as amended. With no available agent below its limit the estimate is
  "15-30 minutes", whatever the number of pending queries; with such an agent and no
  pending query it is "2-5 minutes"; in these two cases it is the estimate of the
  formula. Otherwise the division does not fail, and the estimate is the range from
  \<open>int(w)\<close> to \<open>int(w \<times> 1.5)\<close>, where \<open>w\<close> is the double-precision product of
  the double-precision quotient \<open>pending / available\<close> with 10, the product with 1.5
  is again rounded to a double, and \<open>int\<close> truncates. Whenever \<open>pending / available\<close>
  is a fraction \<open>c / 2 ^ j\<close> with \<open>15 * c\<close> below \<open>2 ^ 53\<close> (for instance when
  \<open>available\<close> is 1, 2 or 4, or divides \<open>pending\<close>), nothing is rounded and the
  estimate is that of the formula, both ends truncated to whole minutes.
\<close>

theorem estimated_wait_time_cases:
  "(length (filter is_available (agents st)) = 0
      \<longrightarrow> get_estimated_wait_time st = ''15-30 minutes'')
   \<and> (length (filter is_available (agents st)) \<noteq> 0
       \<and> length (filter (\<lambda>q. q_status q = ''pending'') (escalated_queries st)) = 0
      \<longrightarrow> get_estimated_wait_time st = ''2-5 minutes'')
   \<and> (length (filter is_available (agents st)) = 0
       \<or> length (filter (\<lambda>q. q_status q = ''pending'') (escalated_queries st)) = 0
      \<longrightarrow> get_estimated_wait_time st
            = estimate_by_formula (length (filter is_available (agents st)))
                (length (filter (\<lambda>q. q_status q = ''pending'') (escalated_queries st))))
   \<and> (length (filter is_available (agents st)) \<noteq> 0
       \<and> length (filter (\<lambda>q. q_status q = ''pending'') (escalated_queries st)) \<noteq> 0
      \<longrightarrow> (\<exists>ratio.
             int_truediv (length (filter (\<lambda>q. q_status q = ''pending'') (escalated_queries st)))
               (length (filter is_available (agents st))) = Some ratio
           \<and> get_estimated_wait_time st
               = str_nat (py_int (float_mul ratio (float_of_nat 10))) @ ''-'' @
                 str_nat (py_int (float_mul (float_mul ratio (float_of_nat 10)) float_1_5)) @
                 '' minutes''))
   \<and> (length (filter is_available (agents st)) \<noteq> 0
       \<and> length (filter (\<lambda>q. q_status q = ''pending'') (escalated_queries st)) \<noteq> 0
       \<and> length (filter (\<lambda>q. q_status q = ''pending'') (escalated_queries st)) * 2 ^ j
           = c * length (filter is_available (agents st))
       \<and> 15 * c < 2 ^ 53
      \<longrightarrow> get_estimated_wait_time st
            = estimate_by_formula (length (filter is_available (agents st)))
                (length (filter (\<lambda>q. q_status q = ''pending'') (escalated_queries st))))"
proof (intro conjI impI)
  assume h: "length (filter is_available (agents st)) \<noteq> 0
       \<and> length (filter (\<lambda>q. q_status q = ''pending'') (escalated_queries st)) \<noteq> 0
       \<and> length (filter (\<lambda>q. q_status q = ''pending'') (escalated_queries st)) * 2 ^ j
           = c * length (filter is_available (agents st))
       \<and> 15 * c < 2 ^ 53"
  define a where "a = length (filter is_available (agents st))"
  define p where "p = length (filter (\<lambda>q. q_status q = ''pending'') (escalated_queries st))"
  from h have a: "0 < a" and p: "0 < p" and eq: "p * 2 ^ j = c * a" and c: "15 * c < 2 ^ 53"
    by (simp_all add: a_def p_def)
  from wait_pipeline_exact[OF a p eq c] obtain ratio
    where "int_truediv p a = Some ratio"
      and "py_int (float_mul ratio (float_of_nat 10)) = nat \<lfloor>real p / real a * 10\<rfloor>"
      and "py_int (float_mul (float_mul ratio (float_of_nat 10)) float_1_5)
             = nat \<lfloor>real p / real a * 10 * (3 / 2)\<rfloor>"
    by blast
  then have "get_estimated_wait_time st = estimate_by_formula a p"
    using a p
    by (simp add: get_estimated_wait_time_def estimate_by_formula_def Let_def
        a_def[symmetric] p_def[symmetric])
  then show "get_estimated_wait_time st
            = estimate_by_formula (length (filter is_available (agents st)))
                (length (filter (\<lambda>q. q_status q = ''pending'') (escalated_queries st)))"
    by (simp only: a_def p_def)
next
  assume "length (filter is_available (agents st)) \<noteq> 0
       \<and> length (filter (\<lambda>q. q_status q = ''pending'') (escalated_queries st)) \<noteq> 0"
  then have ne: "length (filter is_available (agents st)) \<noteq> 0"
    and np: "length (filter (\<lambda>q. q_status q = ''pending'') (escalated_queries st)) \<noteq> 0"
    by blast+
  obtain ratio where r: "int_truediv (length (filter (\<lambda>q. q_status q = ''pending'') (escalated_queries st)))
               (length (filter is_available (agents st))) = Some ratio"
    using int_truediv_total[OF ne] by blast
  have "get_estimated_wait_time st
               = str_nat (py_int (float_mul ratio (float_of_nat 10))) @ ''-'' @
                 str_nat (py_int (float_mul (float_mul ratio (float_of_nat 10)) float_1_5)) @
                 '' minutes''"
    using ne np r unfolding get_estimated_wait_time_def Let_def by simp
  with r show "\<exists>ratio.
             int_truediv (length (filter (\<lambda>q. q_status q = ''pending'') (escalated_queries st)))
               (length (filter is_available (agents st))) = Some ratio
           \<and> get_estimated_wait_time st
               = str_nat (py_int (float_mul ratio (float_of_nat 10))) @ ''-'' @
                 str_nat (py_int (float_mul (float_mul ratio (float_of_nat 10)) float_1_5)) @
                 '' minutes''" by blast
qed (auto simp: get_estimated_wait_time_def estimate_by_formula_def Let_def)

theorem estimated_wait_time_cases_witness:
  "get_estimated_wait_time offline_state = ''15-30 minutes''
   \<and> get_estimated_wait_time (init_state reading_1) = ''2-5 minutes''
   \<and> get_estimated_wait_time pending_state = ''2-3 minutes''
   \<and> estimate_by_formula 4 1 = ''2-3 minutes''"
proof -
  from estimated_wait_time_cases[of offline_state] offline_state_counts
  have a: "get_estimated_wait_time offline_state = ''15-30 minutes''" by blast
  from estimated_wait_time_cases[of "init_state reading_1"] init_state_counts
  have b: "get_estimated_wait_time (init_state reading_1) = ''2-5 minutes''" by simp
  have av: "length (filter is_available (agents pending_state)) = 4"
    and pe: "length (filter (\<lambda>q. q_status q = ''pending'') (escalated_queries pending_state)) = 1"
    using pending_state_counts by blast+
  have h: "length (filter is_available (agents pending_state)) \<noteq> 0
       \<and> length (filter (\<lambda>q. q_status q = ''pending'') (escalated_queries pending_state)) \<noteq> 0
       \<and> length (filter (\<lambda>q. q_status q = ''pending'') (escalated_queries pending_state)) * 2 ^ 2
           = 1 * length (filter is_available (agents pending_state))
       \<and> 15 * 1 < (2::nat) ^ 53"
    by (simp add: av pe)
  from estimated_wait_time_cases[of pending_state 2 1] h
  have "\<exists>ratio.
      int_truediv (length (filter (\<lambda>q. q_status q = ''pending'') (escalated_queries pending_state)))
        (length (filter is_available (agents pending_state))) = Some ratio
      \<and> get_estimated_wait_time pending_state
               = str_nat (py_int (float_mul ratio (float_of_nat 10))) @ ''-'' @
                 str_nat (py_int (float_mul (float_mul ratio (float_of_nat 10)) float_1_5)) @
                 '' minutes''"
    and f: "get_estimated_wait_time pending_state
      = estimate_by_formula (length (filter is_available (agents pending_state)))
          (length (filter (\<lambda>q. q_status q = ''pending'') (escalated_queries pending_state)))"
    by blast+
  then obtain ratio where r: "int_truediv 1 4 = Some ratio"
    and w: "get_estimated_wait_time pending_state
               = str_nat (py_int (float_mul ratio (float_of_nat 10))) @ ''-'' @
                 str_nat (py_int (float_mul (float_mul ratio (float_of_nat 10)) float_1_5)) @
                 '' minutes''"
    unfolding av pe by blast
  from r truediv_1_4 have "ratio = (4503599627370496, - 54)" by (simp only: option.inject)
  with w have c: "get_estimated_wait_time pending_state = ''2-3 minutes''"
    by (simp add: float_of_nat_10 wait_1_4 str_nat_small)
  from f have "get_estimated_wait_time pending_state = estimate_by_formula 4 1"
    by (simp only: av pe)
  with c have d: "estimate_by_formula 4 1 = ''2-3 minutes''" by simp
  from a b c d show ?thesis by blast
qed

end
